theory Spec2Isabelle
  imports Main
begin

section \<open>Data model of the proxy (proxy/proxy.go)\<close>

text \<open>
  Go strings and byte slices are byte sequences, so both are modelled as \<open>string\<close>.
  An \<open>io.Reader\<close> is the bytes it yields followed by either EOF or a read error.
  A nil reader, a nil byte slice and a nil pointer are \<open>None\<close>. An \<open>http.Header\<close>
  is a list of keys with their values; a loop over the map visits it in the order of the list.
  The fields of a record are constants of the theory, so where two Go types have a field
  of the same name the fields of one carry a prefix: \<open>h\<close> for the inbound
  \<open>http.Request\<close>, \<open>Res\<close> for header and body of \<open>Response\<close>, \<open>p\<close> for
  the outbound request, \<open>o\<close> for the origin's \<open>http.Response\<close>.
\<close>

type_synonym error = string

record reader =
  content :: string
  read_error :: bool

type_synonym header = "(string \<times> string list) list"

record url =
  Scheme :: string
  Host :: string
  Path :: string

text \<open>The inbound \<open>*http.Request\<close> received by \<open>proxy.server\<close>.\<close>

record http_request =
  hMethod :: string
  hURL :: url
  hHost :: string
  hHeader :: header
  hBody :: reader

text \<open>\<open>Request\<close> and \<open>Response\<close> of a flow; \<open>Body\<close> is the buffered body.\<close>

record request =
  Method :: string
  URL :: url
  Header :: header
  Body :: "string option"

record response =
  StatusCode :: int
  ResHeader :: header
  ResBody :: "string option"
  BodyReader :: "reader option"
  close :: bool

record conn_context =
  Intercept :: bool
  FlowCount :: int
  closeAfterResponse :: bool

record flow =
  Request :: request
  Response :: "response option"
  Stream :: bool
  UseSeparateClient :: bool
  ConnContext :: conn_context

text \<open>
  An addon callback receives the \<open>*Flow\<close> and may mutate it, so it is a function from
  the flow to the flow it leaves; \<open>None\<close> is a callback that panics. A stream modifier
  also takes a reader and returns one. \<open>AccessProxyServer\<close> receives the inbound request
  and the \<open>ResponseWriter\<close>: its result is the list of operations it performs on the
  writer. The hooks \<open>Request\<close> and \<open>Response\<close> are \<open>Request_hook\<close> and
  \<open>Response_hook\<close>, the plain names being fields of the flow. Every addon has all seven
  operations, as the Go interface \<open>Addon\<close> demands.
\<close>

datatype wr = W_HeaderAdd string string | W_WriteHeader int | W_Write string

record addon =
  Requestheaders :: "flow \<Rightarrow> flow option"
  Request_hook :: "flow \<Rightarrow> flow option"
  Responseheaders :: "flow \<Rightarrow> flow option"
  Response_hook :: "flow \<Rightarrow> flow option"
  StreamRequestModifier :: "flow \<Rightarrow> reader option \<Rightarrow> (flow \<times> reader option) option"
  StreamResponseModifier :: "flow \<Rightarrow> reader option \<Rightarrow> (flow \<times> reader option) option"
  AccessProxyServer :: "http_request \<Rightarrow> wr list option"

record options =
  StreamLargeBodies :: int
  Upstream :: string

record proxy =
  Opts :: options
  Addons :: "addon list"
  shouldIntercept :: "(http_request \<Rightarrow> bool) option"
  upstreamProxy :: "(http_request \<Rightarrow> error + url option) option"

text \<open>The request built by \<open>http.NewRequestWithContext\<close> and what the origin answers.\<close>

record proxy_request =
  pMethod :: string
  pURL :: url
  pHeader :: header
  pBody :: "reader option"

record origin_response =
  oStatusCode :: int
  oHeader :: header
  oClose :: bool
  oBody :: reader

datatype client = SeparateClient | ConnClient

text \<open>
  Everything \<open>ServeHTTP\<close> calls that is not defined in proxy.go is a parameter of the
  model: the helper \<open>readerToBuffer\<close>; of the standard library \<open>URL.String\<close>,
  \<open>http.NewRequestWithContext\<close> (which takes the method, the text of the URL and the
  body, and parses the text), \<open>Header.Add\<close>, \<open>url.Parse\<close> and the environment
  lookup; the two HTTP clients; the dialers.
\<close>

record env =
  readerToBuffer :: "reader \<Rightarrow> int \<Rightarrow> error + (string option \<times> reader option)"
  URL_String :: "url \<Rightarrow> string"
  NewRequestWithContext :: "string \<Rightarrow> string \<Rightarrow> reader option \<Rightarrow> error + proxy_request"
  Header_Add :: "string \<Rightarrow> string \<Rightarrow> header \<Rightarrow> header"
  client_Do :: "client \<Rightarrow> proxy_request \<Rightarrow> error + origin_response"
  url_Parse :: "string \<Rightarrow> error + url"
  ProxyFromEnvironment :: "url \<Rightarrow> error + url option"
  interceptor_dial :: "http_request \<Rightarrow> error option"
  getProxyConn :: "url \<Rightarrow> string \<Rightarrow> error option"
  net_Dial :: "string \<Rightarrow> error option"
  Hijack :: "error option"
  cconn_Write :: "string \<Rightarrow> error option"

section \<open>Observable events\<close>

datatype hook =
    HRequestheaders | HRequest | HResponseheaders | HResponse
  | HStreamRequestModifier | HStreamResponseModifier

datatype site = ReadRequestBody | BuildRequest | SendRequest | ReadResponseBody
  | DialTunnel | HijackClient | WriteEstablished

text \<open>
  \<open>Call h i f r\<close>: hook \<open>h\<close> of \<open>Addons[i]\<close> is called on flow \<open>f\<close> and leaves \<open>r\<close>.
  \<open>ReaderToBuffer s r n\<close>: \<open>readerToBuffer(r, n)\<close> is called for the body of site \<open>s\<close>.
  \<open>NewRequest m u b\<close>: \<open>http.NewRequestWithContext\<close> is called with method \<open>m\<close>,
  URL text \<open>u\<close> and body \<open>b\<close>.
  \<open>Do c f q\<close>: request \<open>q\<close> is sent with client \<open>c\<close>, the flow being \<open>f\<close> at that time.
  \<open>HeaderAdd k v\<close>, \<open>WriteHeader n\<close>, \<open>Write b\<close>: the calls \<open>res.Header().Add(k, v)\<close>,
  \<open>res.WriteHeader(n)\<close> and \<open>res.Write(b)\<close> on the \<open>ResponseWriter\<close>.
  \<open>Finish f\<close>: \<open>f.finish()\<close>.
  \<open>ConnWrite s\<close>: \<open>io.WriteString(cconn, s)\<close> on the hijacked client connection.
  An event records the call; what the call returns is the environment's answer.
\<close>

datatype ev =
    Call hook nat flow "flow option"
  | AccessProxy nat "wr list option"
  | HeaderAdd string string
  | WriteHeader int
  | Write string
  | LogError site
  | LogCopyError
  | LogBodyTooLarge site
  | LogRecovered
  | ReaderToBuffer site reader int
  | NewRequest string string "reader option"
  | InitHttpServerConn
  | Do client flow proxy_request
  | BodyClose
  | Finish flow
  | DialInterceptor string
  | DialProxy url string
  | DialDirect string
  | HijackConn
  | ConnWrite string
  | Transfer
  | ConnClose
  | ClientConnClose

text \<open>How the body of a handler is left, and how \<open>ServeHTTP\<close> comes back to net/http.\<close>

datatype exit = Return flow | Panicking flow

datatype outcome = Returned | Panicked

type_synonym run = "ev list \<times> exit"

definition after :: "ev list \<Rightarrow> run \<Rightarrow> run" where
  "after tr r = (tr @ fst r, snd r)"

section \<open>Flow construction\<close>

text \<open>
  Modelled from the spec: \<open>newFlow\<close> and \<open>newRequest\<close> (flow.go is not part of the
  sources). A new flow has no response, does not stream and does not ask for the separate
  client; its request takes method, URL and headers of the inbound request and has no
  buffered body yet.
\<close>

definition newRequest :: "http_request \<Rightarrow> request" where
  "newRequest req = \<lparr>Method = hMethod req, URL = hURL req, Header = hHeader req, Body = None\<rparr>"

definition newFlow :: "http_request \<Rightarrow> conn_context \<Rightarrow> flow" where
  "newFlow req cc =
     \<lparr>Request = newRequest req, Response = None, Stream = False,
      UseSeparateClient = False, ConnContext = cc\<rparr>"

section \<open>Addon loops\<close>

datatype checked = Proceed flow | ShortCircuit flow | Panics flow

datatype 'a looped = Done 'a | PanicsIn flow

text \<open>
  \<open>for _, addon := range proxy.Addons { addon.H(f); if f.Response != nil { reply; return } }\<close>
  (Requestheaders at lines 239-245, Request at lines 265-271).
\<close>

fun fire_until_response ::
  "hook \<Rightarrow> (addon \<Rightarrow> flow \<Rightarrow> flow option) \<Rightarrow> (nat \<times> addon) list \<Rightarrow> flow \<Rightarrow> ev list \<times> checked" where
  "fire_until_response h sel [] f = ([], Proceed f)"
| "fire_until_response h sel ((i, a) # rest) f =
     (case sel a f of
        None \<Rightarrow> ([Call h i f None], Panics f)
      | Some f' \<Rightarrow>
          if Response f' \<noteq> None then ([Call h i f (Some f')], ShortCircuit f')
          else (let (tr, r) = fire_until_response h sel rest f' in (Call h i f (Some f') # tr, r)))"

text \<open>
  Lines 328-334: after each \<open>Responseheaders\<close> the test is \<open>f.Response.Body != nil\<close>,
  which dereferences \<open>f.Response\<close> and panics when an addon has set it to nil.
\<close>

fun fire_Responseheaders :: "(nat \<times> addon) list \<Rightarrow> flow \<Rightarrow> ev list \<times> checked" where
  "fire_Responseheaders [] f = ([], Proceed f)"
| "fire_Responseheaders ((i, a) # rest) f =
     (case Responseheaders a f of
        None \<Rightarrow> ([Call HResponseheaders i f None], Panics f)
      | Some f' \<Rightarrow>
          (case Response f' of
             None \<Rightarrow> ([Call HResponseheaders i f (Some f')], Panics f')
           | Some r \<Rightarrow>
               if ResBody r \<noteq> None then ([Call HResponseheaders i f (Some f')], ShortCircuit f')
               else (let (tr, x) = fire_Responseheaders rest f'
                     in (Call HResponseheaders i f (Some f') # tr, x))))"

text \<open>
  A loop that calls the hook on every addon and tests nothing
  (lines 353-355, 379-381, 422-424, 427-429).
\<close>

fun fire_all ::
  "hook \<Rightarrow> (addon \<Rightarrow> flow \<Rightarrow> flow option) \<Rightarrow> (nat \<times> addon) list \<Rightarrow> flow \<Rightarrow> ev list \<times> flow looped" where
  "fire_all h sel [] f = ([], Done f)"
| "fire_all h sel ((i, a) # rest) f =
     (case sel a f of
        None \<Rightarrow> ([Call h i f None], PanicsIn f)
      | Some f' \<Rightarrow> (let (tr, r) = fire_all h sel rest f' in (Call h i f (Some f') # tr, r)))"

text \<open>\<open>for _, addon := range proxy.Addons { body = addon.M(f, body) }\<close> (lines 276-278, 358-360).\<close>

fun fire_modifiers ::
  "hook \<Rightarrow> (addon \<Rightarrow> flow \<Rightarrow> reader option \<Rightarrow> (flow \<times> reader option) option) \<Rightarrow>
   (nat \<times> addon) list \<Rightarrow> flow \<Rightarrow> reader option \<Rightarrow> ev list \<times> (flow \<times> reader option) looped" where
  "fire_modifiers h sel [] f body = ([], Done (f, body))"
| "fire_modifiers h sel ((i, a) # rest) f body =
     (case sel a f body of
        None \<Rightarrow> ([Call h i f None], PanicsIn f)
      | Some (f', body') \<Rightarrow>
          (let (tr, r) = fire_modifiers h sel rest f' body' in (Call h i f (Some f') # tr, r)))"

section \<open>Writing the response (closure \<open>reply\<close>, lines 188-219)\<close>

text \<open>
  \<open>io.Copy(res, r)\<close>: the bytes the reader yields are handed to the writer; a read
  error is logged. The events record what is handed to the \<open>ResponseWriter\<close>: an error
  that \<open>res.Write\<close> returns (a client connection that is gone, a status that allows no
  body), which the closure would only log, is not modelled.
\<close>

definition copy :: "reader \<Rightarrow> ev list" where
  "copy r = (if content r = [] then [] else [Write (content r)])
            @ (if read_error r then [LogCopyError] else [])"

text \<open>
  \<open>res.WriteHeader(code)\<close> is the first write of the handler, and the writer of net/http
  then checks the code (\<open>checkWriteHeaderCode\<close>): it panics when the code is below 100
  or above 999. \<open>checkWriteHeaderCode code\<close> holds when the call returns.
\<close>

definition checkWriteHeaderCode :: "int \<Rightarrow> bool" where
  "checkWriteHeaderCode code = (\<not> (code < 100 \<or> code > 999))"

text \<open>
  The closure: the headers, the status, then the three body sources. When
  \<open>res.WriteHeader\<close> panics the closure is left there, so none of the sources is copied.
\<close>

definition reply :: "response \<Rightarrow> reader option \<Rightarrow> ev list \<times> outcome" where
  "reply response body =
     (let head = concat (map (\<lambda>(key, value). map (HeaderAdd key) value) (ResHeader response))
                 @ (if close response then [HeaderAdd ''Connection'' ''close''] else [])
                 @ [WriteHeader (StatusCode response)]
      in if \<not> checkWriteHeaderCode (StatusCode response) then (head, Panicked)
         else (head
               @ (case body of None \<Rightarrow> [] | Some r \<Rightarrow> copy r)
               @ (case BodyReader response of None \<Rightarrow> [] | Some r \<Rightarrow> copy r)
               @ (case ResBody response of
                    None \<Rightarrow> []
                  | Some b \<Rightarrow> if length b > 0 then [Write b] else []),
               Returned))"

section \<open>The forward pipeline (\<open>Proxy.ServeHTTP\<close>, lines 228-363)\<close>

text \<open>
  \<open>reply(f.Response, body)\<close>; the closure dereferences \<open>f.Response\<close>, so it panics on
  a flow without response, and it panics in \<open>res.WriteHeader\<close> on a status code that
  net/http refuses.
\<close>

definition send_reply :: "flow \<Rightarrow> reader option \<Rightarrow> run" where
  "send_reply f body =
     (case Response f of
        None \<Rightarrow> ([], Panicking f)
      | Some r \<Rightarrow>
          (case reply r body of
             (tr, Returned) \<Rightarrow> (tr, Return f)
           | (tr, Panicked) \<Rightarrow> (tr, Panicking f)))"

text \<open>Lines 358-362: the \<open>StreamResponseModifier\<close> chain, then the reply.\<close>

definition modify_and_reply :: "proxy \<Rightarrow> flow \<Rightarrow> reader option \<Rightarrow> run" where
  "modify_and_reply p f resBody =
     (case fire_modifiers HStreamResponseModifier StreamResponseModifier
             (enumerate 0 (Addons p)) f resBody of
        (tr, PanicsIn f') \<Rightarrow> (tr, Panicking f')
      | (tr, Done (f', body)) \<Rightarrow> after tr (send_reply f' body))"

text \<open>Lines 336-357: read the response body unless the flow streams.\<close>

definition read_response_body :: "env \<Rightarrow> proxy \<Rightarrow> flow \<Rightarrow> reader \<Rightarrow> run" where
  "read_response_body e p f proxyResBody =
     (if \<not> Stream f then
        after [ReaderToBuffer ReadResponseBody proxyResBody (StreamLargeBodies (Opts p))]
        (case readerToBuffer e proxyResBody (StreamLargeBodies (Opts p)) of
           Inl err \<Rightarrow> ([LogError ReadResponseBody, WriteHeader 502], Return f)
         | Inr (None, r) \<Rightarrow>
             after [LogBodyTooLarge ReadResponseBody] (modify_and_reply p (f\<lparr>Stream := True\<rparr>) r)
         | Inr (Some resBuf, r) \<Rightarrow>
             (case Response f of
                None \<Rightarrow> ([], Panicking f)
              | Some resp \<Rightarrow>
                  (case fire_all HResponse Response_hook (enumerate 0 (Addons p))
                          (f\<lparr>Response := Some (resp\<lparr>ResBody := Some resBuf\<rparr>)\<rparr>) of
                     (tr, PanicsIn f') \<Rightarrow> (tr, Panicking f')
                   | (tr, Done f') \<Rightarrow> after tr (modify_and_reply p f' r))))
      else modify_and_reply p f (Some proxyResBody))"

text \<open>
  Lines 315-325: the \<open>close\<close> flag of the origin's answer is propagated to the
  connection context and \<open>f.Response\<close> is built from status, headers and that flag.
\<close>

definition receive_response :: "flow \<Rightarrow> origin_response \<Rightarrow> flow" where
  "receive_response f proxyRes =
     (let f1 = (if oClose proxyRes
                then f\<lparr>ConnContext := (ConnContext f)\<lparr>closeAfterResponse := True\<rparr>\<rparr> else f)
      in f1\<lparr>Response := Some \<lparr>StatusCode = oStatusCode proxyRes,
               ResHeader = oHeader proxyRes, ResBody = None, BodyReader = None,
               close = oClose proxyRes\<rparr>\<rparr>)"

text \<open>
  Lines 315-334: the origin has answered. \<open>defer proxyRes.Body.Close()\<close> runs however
  the rest of the handler is left.
\<close>

definition handle_origin_response :: "env \<Rightarrow> proxy \<Rightarrow> flow \<Rightarrow> origin_response \<Rightarrow> run" where
  "handle_origin_response e p f proxyRes =
     (let r = (case fire_Responseheaders (enumerate 0 (Addons p)) (receive_response f proxyRes) of
                 (tr, Panics f') \<Rightarrow> (tr, Panicking f')
               | (tr, ShortCircuit f') \<Rightarrow> after tr (send_reply f' None)
               | (tr, Proceed f') \<Rightarrow> after tr (read_response_body e p f' (oBody proxyRes)))
      in (fst r @ [BodyClose], snd r))"

text \<open>Lines 296-301: \<open>useSeparateClient\<close> starts as the flow's flag and is set when raw
  host or raw scheme differ from the flow's URL.\<close>

definition useSeparateClient :: "string \<Rightarrow> string \<Rightarrow> flow \<Rightarrow> bool" where
  "useSeparateClient rawReqUrlHost rawReqUrlScheme f =
     (if \<not> UseSeparateClient f then
        (if rawReqUrlHost \<noteq> Host (URL (Request f)) \<or> rawReqUrlScheme \<noteq> Scheme (URL (Request f))
         then True else UseSeparateClient f)
      else UseSeparateClient f)"

text \<open>Lines 303-308: the client that sends the request.\<close>

definition select_client :: "string \<Rightarrow> string \<Rightarrow> flow \<Rightarrow> client" where
  "select_client rawReqUrlHost rawReqUrlScheme f =
     (if useSeparateClient rawReqUrlHost rawReqUrlScheme f then SeparateClient else ConnClient)"

text \<open>
  Lines 288-292: every value of every header of the flow's request is added to the request
  that \<open>http.NewRequestWithContext\<close> has built, with \<open>Header.Add\<close>.
\<close>

definition add_headers :: "env \<Rightarrow> header \<Rightarrow> proxy_request \<Rightarrow> proxy_request" where
  "add_headers e hs proxyReq =
     proxyReq\<lparr>pHeader := fold (\<lambda>(key, value). fold (Header_Add e key) value) hs (pHeader proxyReq)\<rparr>"

text \<open>
  Lines 276-313: the \<open>StreamRequestModifier\<close> chain; the outbound request, built from the
  method of the flow's request, the text of its URL (\<open>f.Request.URL.String()\<close>) and the
  body reader; the headers; the send.
\<close>

definition forward_request ::
  "env \<Rightarrow> proxy \<Rightarrow> string \<Rightarrow> string \<Rightarrow> flow \<Rightarrow> reader option \<Rightarrow> run" where
  "forward_request e p rawReqUrlHost rawReqUrlScheme f reqBody0 =
     (case fire_modifiers HStreamRequestModifier StreamRequestModifier
             (enumerate 0 (Addons p)) f reqBody0 of
        (tr, PanicsIn f') \<Rightarrow> (tr, Panicking f')
      | (tr, Done (f', reqBody)) \<Rightarrow>
          after (tr @ [NewRequest (Method (Request f')) (URL_String e (URL (Request f'))) reqBody])
            (case NewRequestWithContext e (Method (Request f'))
                    (URL_String e (URL (Request f'))) reqBody of
               Inl err \<Rightarrow> ([LogError BuildRequest, WriteHeader 502], Return f')
             | Inr proxyReq0 \<Rightarrow>
                 (let proxyReq = add_headers e (Header (Request f')) proxyReq0;
                      c = select_client rawReqUrlHost rawReqUrlScheme f'
                  in after [InitHttpServerConn, Do c f' proxyReq]
                       (case client_Do e c proxyReq of
                          Inl err \<Rightarrow> ([LogError SendRequest, WriteHeader 502], Return f')
                        | Inr proxyRes \<Rightarrow> handle_origin_response e p f' proxyRes))))"

text \<open>Lines 247-274: read the request body unless the flow streams.\<close>

definition read_request_body ::
  "env \<Rightarrow> proxy \<Rightarrow> http_request \<Rightarrow> string \<Rightarrow> string \<Rightarrow> flow \<Rightarrow> run" where
  "read_request_body e p req rawReqUrlHost rawReqUrlScheme f =
     (if \<not> Stream f then
        after [ReaderToBuffer ReadRequestBody (hBody req) (StreamLargeBodies (Opts p))]
        (case readerToBuffer e (hBody req) (StreamLargeBodies (Opts p)) of
           Inl err \<Rightarrow> ([LogError ReadRequestBody, WriteHeader 502], Return f)
         | Inr (None, r) \<Rightarrow>
             after [LogBodyTooLarge ReadRequestBody]
               (forward_request e p rawReqUrlHost rawReqUrlScheme (f\<lparr>Stream := True\<rparr>) r)
         | Inr (Some reqBuf, r) \<Rightarrow>
             (case fire_until_response HRequest Request_hook (enumerate 0 (Addons p))
                     (f\<lparr>Request := (Request f)\<lparr>Body := Some reqBuf\<rparr>\<rparr>) of
                (tr, Panics f') \<Rightarrow> (tr, Panicking f')
              | (tr, ShortCircuit f') \<Rightarrow> after tr (send_reply f' None)
              | (tr, Proceed f') \<Rightarrow>
                  after tr
                    (forward_request e p rawReqUrlHost rawReqUrlScheme f'
                       (Some \<lparr>content = (case Body (Request f') of None \<Rightarrow> [] | Some b \<Rightarrow> b),
                              read_error = False\<rparr>))))
      else forward_request e p rawReqUrlHost rawReqUrlScheme f (Some (hBody req)))"

text \<open>Lines 228-245: the flow is created and the \<open>Requestheaders\<close> hooks run.\<close>

definition forward_pipeline :: "env \<Rightarrow> proxy \<Rightarrow> conn_context \<Rightarrow> http_request \<Rightarrow> run" where
  "forward_pipeline e p cc req =
     (let f = newFlow req (cc\<lparr>FlowCount := FlowCount cc + 1\<rparr>);
          rawReqUrlHost = Host (URL (Request f));
          rawReqUrlScheme = Scheme (URL (Request f))
      in case fire_until_response HRequestheaders Requestheaders (enumerate 0 (Addons p)) f of
           (tr, Panics f') \<Rightarrow> (tr, Panicking f')
         | (tr, ShortCircuit f') \<Rightarrow> after tr (send_reply f' None)
         | (tr, Proceed f') \<Rightarrow>
             after tr (read_request_body e p req rawReqUrlHost rawReqUrlScheme f'))"

section \<open>Upstream resolution (lines 454-477)\<close>

definition getUpstreamProxyUrl :: "env \<Rightarrow> proxy \<Rightarrow> http_request \<Rightarrow> error + url option" where
  "getUpstreamProxyUrl e p req =
     (case upstreamProxy p of
        Some fn \<Rightarrow> fn req
      | None \<Rightarrow>
          if length (Upstream (Opts p)) > 0 then
            (case url_Parse e (Upstream (Opts p)) of
               Inl err \<Rightarrow> Inl err
             | Inr u \<Rightarrow> Inr (Some u))
          else ProxyFromEnvironment e \<lparr>Scheme = ''https'', Host = hHost req, Path = []\<rparr>)"

definition getUpstreamConn :: "env \<Rightarrow> proxy \<Rightarrow> http_request \<Rightarrow> ev list \<times> error option" where
  "getUpstreamConn e p req =
     (case getUpstreamProxyUrl e p req of
        Inl err \<Rightarrow> ([], Some err)
      | Inr (Some proxyUrl) \<Rightarrow>
          ([DialProxy proxyUrl (hHost req)], getProxyConn e proxyUrl (hHost req))
      | Inr None \<Rightarrow> ([DialDirect (hHost req)], net_Dial e (hHost req)))"

section \<open>The CONNECT handler (lines 365-433)\<close>

text \<open>The line written to the client (line 410) and the response of lines 416-419.\<close>

definition established :: string where
  "established = ''HTTP/1.1 200 Connection Established'' @ [CHR 0x0D, CHR 0x0A, CHR 0x0D, CHR 0x0A]"

definition synthetic_response :: response where
  "synthetic_response =
     \<lparr>StatusCode = 200, ResHeader = [], ResBody = None, BodyReader = None, close = False\<rparr>"

text \<open>Lines 383-391: the interceptor is dialled, or the upstream connection is opened.\<close>

definition dial_tunnel :: "env \<Rightarrow> proxy \<Rightarrow> http_request \<Rightarrow> bool \<Rightarrow> ev list \<times> error option" where
  "dial_tunnel e p req intercept =
     (if intercept then ([DialInterceptor (hHost req)], interceptor_dial e req)
      else getUpstreamConn e p req)"

text \<open>Line 371: without a rule every CONNECT is intercepted.\<close>

definition intercepts :: "proxy \<Rightarrow> http_request \<Rightarrow> bool" where
  "intercepts p req = (case shouldIntercept p of None \<Rightarrow> True | Some rule \<Rightarrow> rule req)"

text \<open>
  The deferred calls run last-registered first when the handler is left, also by a panic:
  the \<open>Response\<close> hooks (once registered), \<open>cconn.Close()\<close>, \<open>conn.Close()\<close>,
  \<open>f.finish()\<close>. No deferred call recovers.
\<close>

definition handleConnect ::
  "env \<Rightarrow> proxy \<Rightarrow> conn_context \<Rightarrow> http_request \<Rightarrow> ev list \<times> outcome" where
  "handleConnect e p cc req =
     (let f = newFlow req (cc\<lparr>Intercept := intercepts p req\<rparr>);
          addons = enumerate 0 (Addons p)
      in case fire_all HRequestheaders Requestheaders addons f of
           (tr, PanicsIn f') \<Rightarrow> (tr @ [Finish f'], Panicked)
         | (tr, Done f1) \<Rightarrow>
            (let (dtr, derr) = dial_tunnel e p req (intercepts p req)
             in case derr of
                  Some err \<Rightarrow>
                    (tr @ dtr @ [LogError DialTunnel, WriteHeader 502, Finish f1], Returned)
                | None \<Rightarrow>
                   (case Hijack e of
                      Some err \<Rightarrow>
                        (tr @ dtr @ [LogError HijackClient, WriteHeader 502, ConnClose, Finish f1],
                         Returned)
                    | None \<Rightarrow>
                       (case cconn_Write e established of
                          Some err \<Rightarrow>
                            (tr @ dtr @ [HijackConn, ConnWrite established,
                                         LogError WriteEstablished,
                                         ClientConnClose, ConnClose, Finish f1], Returned)
                        | None \<Rightarrow>
                           (let f2 = f1\<lparr>Response := Some synthetic_response\<rparr>;
                                pre = tr @ dtr @ [HijackConn, ConnWrite established]
                            in case fire_all HResponseheaders Responseheaders addons f2 of
                                 (tr2, PanicsIn f') \<Rightarrow>
                                   (pre @ tr2 @ [ClientConnClose, ConnClose, Finish f'], Panicked)
                               | (tr2, Done f3) \<Rightarrow>
                                  (case fire_all HResponse Response_hook addons f3 of
                                     (tr3, PanicsIn f') \<Rightarrow>
                                       (pre @ tr2 @ [Transfer] @ tr3
                                          @ [ClientConnClose, ConnClose, Finish f'], Panicked)
                                   | (tr3, Done f4) \<Rightarrow>
                                       (pre @ tr2 @ [Transfer] @ tr3
                                          @ [ClientConnClose, ConnClose, Finish f4], Returned)))))))"

section \<open>The dispatcher (\<open>Proxy.ServeHTTP\<close>, lines 164-226)\<close>

definition IsAbs :: "url \<Rightarrow> bool" where
  "IsAbs u = (Scheme u \<noteq> [])"

text \<open>The fixed body of the 400 reply (line 179), as the bytes of its UTF-8 encoding.\<close>

definition proxy_message :: string where
  "proxy_message =
     [CHR 0xE6, CHR 0xAD, CHR 0xA4, CHR 0xE4, CHR 0xB8, CHR 0xBA, CHR 0xE4, CHR 0xBB,
      CHR 0xA3, CHR 0xE7, CHR 0x90, CHR 0x86, CHR 0xE6, CHR 0x9C, CHR 0x8D, CHR 0xE5,
      CHR 0x8A, CHR 0xA1, CHR 0xE5, CHR 0x99, CHR 0xA8, CHR 0xEF, CHR 0xBC, CHR 0x8C,
      CHR 0xE4, CHR 0xB8, CHR 0x8D, CHR 0xE8, CHR 0x83, CHR 0xBD, CHR 0xE7, CHR 0x9B,
      CHR 0xB4, CHR 0xE6, CHR 0x8E, CHR 0xA5, CHR 0xE5, CHR 0x8F, CHR 0x91, CHR 0xE8,
      CHR 0xB5, CHR 0xB7, CHR 0xE8, CHR 0xAF, CHR 0xB7, CHR 0xE6, CHR 0xB1, CHR 0x82]"

text \<open>Lines 182-184: every addon's \<open>AccessProxyServer\<close> is called with the writer.\<close>

fun access_all :: "(nat \<times> addon) list \<Rightarrow> http_request \<Rightarrow> ev list \<times> outcome" where
  "access_all [] req = ([], Returned)"
| "access_all ((i, a) # rest) req =
     (case AccessProxyServer a req of
        None \<Rightarrow> ([AccessProxy i None], Panicked)
      | Some ws \<Rightarrow> (let (tr, r) = access_all rest req in (AccessProxy i (Some ws) # tr, r)))"

text \<open>
  The deferred calls of the forward pipeline are registered in the order recover (line 222),
  \<open>f.finish()\<close> (line 231), so leaving the pipeline runs \<open>f.finish()\<close> and then, after a
  panic, the recovery that logs a warning. The CONNECT branch and the
  \<open>AccessProxyServer\<close> branch return before line 222.
\<close>

definition ServeHTTP ::
  "env \<Rightarrow> proxy \<Rightarrow> conn_context \<Rightarrow> http_request \<Rightarrow> ev list \<times> outcome" where
  "ServeHTTP e p cc req =
     (if hMethod req = ''CONNECT'' then handleConnect e p cc req
      else if \<not> IsAbs (hURL req) \<or> Host (hURL req) = [] then
        (if length (Addons p) = 0 then ([WriteHeader 400, Write proxy_message], Returned)
         else access_all (enumerate 0 (Addons p)) req)
      else
        (case forward_pipeline e p cc req of
           (tr, Return f) \<Rightarrow> (tr @ [Finish f], Returned)
         | (tr, Panicking f) \<Rightarrow> (tr @ [Finish f, LogRecovered], Returned)))"

section \<open>Reading a run\<close>

text \<open>The bytes handed to the \<open>ResponseWriter\<close> as the body, in the order of the calls.\<close>

fun written :: "ev \<Rightarrow> string" where
  "written (Write b) = b"
| "written _ = []"

definition body_sent :: "ev list \<Rightarrow> string" where
  "body_sent tr = concat (map written tr)"

definition bytes_of :: "reader option \<Rightarrow> string" where
  "bytes_of r = (case r of None \<Rightarrow> [] | Some x \<Rightarrow> content x)"

text \<open>
  \<open>is_call h e\<close>: event \<open>e\<close> is a call of hook \<open>h\<close>. \<open>fired h tr\<close>: the indices of the
  addons on which hook \<open>h\<close> is called in run \<open>tr\<close>, in order. \<open>is_write e\<close>: \<open>e\<close> is an
  operation of the proxy on the \<open>ResponseWriter\<close>.
\<close>

fun is_call :: "hook \<Rightarrow> ev \<Rightarrow> bool" where
  "is_call h (Call h' i f r) = (h' = h)"
| "is_call h _ = False"

fun fired_on :: "hook \<Rightarrow> ev \<Rightarrow> nat list" where
  "fired_on h (Call k i f r) = (if k = h then [i] else [])"
| "fired_on h _ = []"

definition fired :: "hook \<Rightarrow> ev list \<Rightarrow> nat list" where
  "fired h tr = concat (map (fired_on h) tr)"

fun is_write :: "ev \<Rightarrow> bool" where
  "is_write (HeaderAdd k v) = True"
| "is_write (WriteHeader n) = True"
| "is_write (Write b) = True"
| "is_write _ = False"

text \<open>
  The events of the forward pipeline, numbered by the part of \<open>ServeHTTP\<close> that produces
  them: the \<open>Requestheaders\<close> loop (0), reading the request body and the \<open>Request\<close>
  hooks (1), the request modifiers (2), building and sending the request (3), the
  \<open>Responseheaders\<close> loop (4), reading the response body and the \<open>Response\<close> hooks
  (5), the response modifiers (6), the writer (7), the deferred calls (8 to 10).
  Events of the other two branches of \<open>ServeHTTP\<close> have number 0.
\<close>

fun phase :: "ev \<Rightarrow> nat" where
  "phase (Call h i f r) =
     (case h of HRequestheaders \<Rightarrow> 0 | HRequest \<Rightarrow> 1 | HStreamRequestModifier \<Rightarrow> 2
      | HResponseheaders \<Rightarrow> 4 | HResponse \<Rightarrow> 5 | HStreamResponseModifier \<Rightarrow> 6)"
| "phase (LogError s) =
     (case s of ReadRequestBody \<Rightarrow> 1 | BuildRequest \<Rightarrow> 3 | SendRequest \<Rightarrow> 3
      | ReadResponseBody \<Rightarrow> 5 | _ \<Rightarrow> 0)"
| "phase (LogBodyTooLarge s) =
     (case s of ReadRequestBody \<Rightarrow> 1 | ReadResponseBody \<Rightarrow> 5 | _ \<Rightarrow> 0)"
| "phase (ReaderToBuffer s r n) =
     (case s of ReadRequestBody \<Rightarrow> 1 | ReadResponseBody \<Rightarrow> 5 | _ \<Rightarrow> 0)"
| "phase (NewRequest m u b) = 3"
| "phase InitHttpServerConn = 3"
| "phase (Do c f q) = 3"
| "phase (HeaderAdd k v) = 7"
| "phase (WriteHeader n) = 7"
| "phase (Write b) = 7"
| "phase LogCopyError = 7"
| "phase BodyClose = 8"
| "phase (Finish f) = 9"
| "phase LogRecovered = 10"
| "phase _ = 0"

text \<open>The flow with which the forward pipeline (lines 228-233) and the CONNECT handler
  (lines 372-375) start.\<close>

definition first_flow :: "conn_context \<Rightarrow> http_request \<Rightarrow> flow" where
  "first_flow cc req = newFlow req (cc\<lparr>FlowCount := FlowCount cc + 1\<rparr>)"

definition connect_flow :: "proxy \<Rightarrow> conn_context \<Rightarrow> http_request \<Rightarrow> flow" where
  "connect_flow p cc req = newFlow req (cc\<lparr>Intercept := intercepts p req\<rparr>)"

text \<open>
  \<open>chosen h sc e\<close>: if \<open>e\<close> is the sending of a request, its client is the one lines
  296-308 select for raw host \<open>h\<close> and raw scheme \<open>sc\<close>.
\<close>

definition chosen :: "string \<Rightarrow> string \<Rightarrow> ev \<Rightarrow> bool" where
  "chosen h sc e = (case e of Do c f q \<Rightarrow> c = select_client h sc f | _ \<Rightarrow> True)"

text \<open>The three places where an error on the way to the origin is handled before
  \<open>f.Response\<close> exists (lines 252, 282, 309).\<close>

definition origin_side :: "site \<Rightarrow> bool" where
  "origin_side s = (s = ReadRequestBody \<or> s = BuildRequest \<or> s = SendRequest)"

text \<open>
  Observations of the flow. \<open>seen e\<close> is the flow an event sees and the flow it leaves
  behind: a callback is entered with one flow and returns another (a callback that panics
  is taken to leave the flow as it found it); a send and \<open>f.finish()\<close> see the flow and
  leave it alone. \<open>observed tr\<close> lists these flows in the order of the run.
  \<open>own_steps cur tr\<close> lists the steps of the proxy's own code: each pair is the flow left
  behind by one observation (\<open>cur\<close> at the beginning) and the flow the next observation
  sees; what lies between the two is code of \<open>ServeHTTP\<close> or \<open>handleConnect\<close>, never a
  callback.
\<close>

fun seen :: "ev \<Rightarrow> (flow \<times> flow) option" where
  "seen (Call h i f r) = Some (f, case r of None \<Rightarrow> f | Some f' \<Rightarrow> f')"
| "seen (Do c f q) = Some (f, f)"
| "seen (Finish f) = Some (f, f)"
| "seen _ = None"

definition observed :: "ev list \<Rightarrow> flow list" where
  "observed tr = concat (map (\<lambda>e. case seen e of None \<Rightarrow> [] | Some (f, f') \<Rightarrow> [f, f']) tr)"

fun own_steps :: "flow option \<Rightarrow> ev list \<Rightarrow> (flow \<times> flow) list" where
  "own_steps cur [] = []"
| "own_steps cur (e # es) =
     (case seen e of
        None \<Rightarrow> own_steps cur es
      | Some (f, f') \<Rightarrow> (case cur of None \<Rightarrow> [] | Some g \<Rightarrow> [(g, f)]) @ own_steps (Some f') es)"

text \<open>
  For the proofs about \<open>own_steps\<close>: the flow the last observation of a run leaves behind,
  a flag that is kept from there to a flow, all own steps of a run keeping the flag, and a
  stage of the pipeline keeping it up to the flow with which the stage is left.
\<close>

fun last_seen :: "flow option \<Rightarrow> ev list \<Rightarrow> flow option" where
  "last_seen cur [] = cur"
| "last_seen cur (e # es) =
     (case seen e of None \<Rightarrow> last_seen cur es | Some (f, f') \<Rightarrow> last_seen (Some f') es)"

definition keeps_flag :: "flow option \<Rightarrow> flow \<Rightarrow> bool" where
  "keeps_flag cur f = (case cur of None \<Rightarrow> True | Some g \<Rightarrow> Stream g \<longrightarrow> Stream f)"

definition own_ok :: "flow option \<Rightarrow> ev list \<Rightarrow> bool" where
  "own_ok cur tr = (\<forall>(g, f)\<in>set (own_steps cur tr). Stream g \<longrightarrow> Stream f)"

fun exit_flow :: "exit \<Rightarrow> flow" where
  "exit_flow (Return f) = f"
| "exit_flow (Panicking f) = f"

fun checked_flow :: "checked \<Rightarrow> flow" where
  "checked_flow (Proceed f) = f"
| "checked_flow (ShortCircuit f) = f"
| "checked_flow (Panics f) = f"

definition kept :: "flow option \<Rightarrow> run \<Rightarrow> bool" where
  "kept cur r = (own_ok cur (fst r) \<and> keeps_flag (last_seen cur (fst r)) (exit_flow (snd r)))"

text \<open>
  Calls that can fail on the way to the origin. \<open>fails e ev\<close> is the site whose call
  event \<open>ev\<close> records, when that call returns an error in environment \<open>e\<close>.
  \<open>buffers e ev\<close> is the site whose body the call recorded by \<open>ev\<close> returns as a
  buffer. \<open>logged e tr\<close>: every call of run \<open>tr\<close> that fails has its error logged in
  \<open>tr\<close>.
\<close>

fun fails :: "env \<Rightarrow> ev \<Rightarrow> site option" where
  "fails e (ReaderToBuffer s r n) =
     (case readerToBuffer e r n of Inl err \<Rightarrow> Some s | Inr x \<Rightarrow> None)"
| "fails e (NewRequest m u b) =
     (case NewRequestWithContext e m u b of Inl err \<Rightarrow> Some BuildRequest | Inr q \<Rightarrow> None)"
| "fails e (Do c f q) =
     (case client_Do e c q of Inl err \<Rightarrow> Some SendRequest | Inr r \<Rightarrow> None)"
| "fails e _ = None"

fun buffers :: "env \<Rightarrow> ev \<Rightarrow> site option" where
  "buffers e (ReaderToBuffer s r n) =
     (case readerToBuffer e r n of
        Inl err \<Rightarrow> None
      | Inr (None, r') \<Rightarrow> None
      | Inr (Some buf, r') \<Rightarrow> Some s)"
| "buffers e _ = None"

definition logged :: "env \<Rightarrow> ev list \<Rightarrow> bool" where
  "logged e tr = (\<forall>ev\<in>set tr. \<forall>s. fails e ev = Some s \<longrightarrow> LogError s \<in> set tr)"

text \<open>
  Reading of the bodies. \<open>attempted s tr\<close>: in run \<open>tr\<close> the body of site \<open>s\<close> is
  handed to \<open>readerToBuffer\<close>. \<open>buffered e s tr\<close>: it is, and \<open>readerToBuffer\<close>
  returns it as a buffer. \<open>never_cleared tr\<close>: no callback of run \<open>tr\<close> that is entered
  with \<open>f.Stream\<close> set returns with it cleared.
\<close>

fun read_at :: "ev \<Rightarrow> site option" where
  "read_at (ReaderToBuffer s r n) = Some s"
| "read_at _ = None"

definition attempted :: "site \<Rightarrow> ev list \<Rightarrow> bool" where
  "attempted s tr = (\<exists>ev\<in>set tr. read_at ev = Some s)"

definition buffered :: "env \<Rightarrow> site \<Rightarrow> ev list \<Rightarrow> bool" where
  "buffered e s tr = (\<exists>ev\<in>set tr. buffers e ev = Some s)"

definition never_cleared :: "ev list \<Rightarrow> bool" where
  "never_cleared tr = (\<forall>h i f f'. Call h i f (Some f') \<in> set tr \<longrightarrow> Stream f \<longrightarrow> Stream f')"



section \<open>Upstream precedence as the specification words it\<close>

text \<open>
  The specification lists the sources of the upstream URL in order, each with the condition
  under which it applies: the per-request callback if set, the static \<open>options.upstream\<close>
  if non-empty, the environment for host and scheme https; the first that applies decides,
  and without any the connection is direct.
\<close>

definition upstream_candidates ::
  "env \<Rightarrow> proxy \<Rightarrow> http_request \<Rightarrow> (bool \<times> (error + url option)) list" where
  "upstream_candidates e p req =
     [(upstreamProxy p \<noteq> None,
         (case upstreamProxy p of Some fn \<Rightarrow> fn req | None \<Rightarrow> Inr None)),
      (Upstream (Opts p) \<noteq> [],
         (case url_Parse e (Upstream (Opts p)) of Inl err \<Rightarrow> Inl err | Inr u \<Rightarrow> Inr (Some u))),
      (True, ProxyFromEnvironment e \<lparr>Scheme = ''https'', Host = hHost req, Path = []\<rparr>)]"

definition first_match :: "(bool \<times> (error + url option)) list \<Rightarrow> error + url option" where
  "first_match cs = (case find fst cs of Some c \<Rightarrow> snd c | None \<Rightarrow> Inr None)"

section \<open>A concrete proxy, origin and requests\<close>

text \<open>
  Modelled from the spec: \<open>proxy.BaseAddon\<close> (addon.go is not part of the sources), the
  addon whose operations all default to no-ops.
\<close>

definition BaseAddon :: addon where
  "BaseAddon =
     \<lparr>Requestheaders = Some, Request_hook = Some, Responseheaders = Some,
      Response_hook = Some,
      StreamRequestModifier = (\<lambda>f r. Some (f, r)),
      StreamResponseModifier = (\<lambda>f r. Some (f, r)),
      AccessProxyServer = (\<lambda>req. Some [])\<rparr>"

text \<open>
  Modelled from the spec: \<open>readerToBuffer\<close> (helper.go is not part of the sources). It
  attempts to read at most \<open>limit\<close> bytes; a larger source is left unbuffered and its
  reader is kept, a source read to its end is returned as the buffer. The runs below stay
  away from a body of exactly \<open>limit\<close> bytes.
\<close>

definition readerToBuffer_spec ::
  "reader \<Rightarrow> int \<Rightarrow> error + (string option \<times> reader option)" where
  "readerToBuffer_spec r limit =
     (if limit < int (length (content r)) then Inr (None, Some r)
      else if read_error r then Inl ''read error''
      else Inr (Some (content r), None))"

definition bytes_reader :: "string \<Rightarrow> reader" where
  "bytes_reader b = \<lparr>content = b, read_error = False\<rparr>"

definition origin_reply :: "string \<Rightarrow> origin_response" where
  "origin_reply b = \<lparr>oStatusCode = 200, oHeader = [], oClose = False, oBody = bytes_reader b\<rparr>"

text \<open>
  The standard library of the sample environment, for URLs of a scheme, a host and a path
  that need no escaping. \<open>url_string\<close> prints as \<open>URL.String\<close> does: the scheme and
  a colon; two slashes and the host; the path, which is given a leading slash after a
  host if it has none, and a leading \<open>./\<close> if nothing precedes it and its first segment
  has a colon. \<open>parse_url\<close> reads text of the form \<open>scheme://host/path\<close>.
\<close>

definition url_string :: "url \<Rightarrow> string" where
  "url_string u =
     (if Scheme u \<noteq> [] then Scheme u @ '':'' else [])
     @ (if (Scheme u \<noteq> [] \<or> Host u \<noteq> []) \<and> (Host u \<noteq> [] \<or> Path u \<noteq> []) then ''//'' else [])
     @ Host u
     @ (if Path u \<noteq> [] \<and> hd (Path u) \<noteq> CHR ''/'' \<and> Host u \<noteq> [] then ''/'' else [])
     @ (if Scheme u = [] \<and> Host u = []
           \<and> CHR '':'' \<in> set (takeWhile (\<lambda>c. c \<noteq> CHR ''/'') (Path u)) then ''./'' else [])
     @ Path u"

definition parse_url :: "string \<Rightarrow> url" where
  "parse_url s =
     (let rest = drop 3 (dropWhile (\<lambda>c. c \<noteq> CHR '':'') s)
      in \<lparr>Scheme = takeWhile (\<lambda>c. c \<noteq> CHR '':'') s,
          Host = takeWhile (\<lambda>c. c \<noteq> CHR ''/'') rest,
          Path = dropWhile (\<lambda>c. c \<noteq> CHR ''/'') rest\<rparr>)"

text \<open>
  \<open>Header.Add\<close> as net/textproto has it: a key all of whose bytes are token bytes is
  brought to its canonical form (the first letter and every letter after a dash in upper
  case, the other letters in lower case), any other key is left as it is; the value is
  appended to the values of that key.
\<close>

definition token_bytes :: string where
  "token_bytes =
     ''abcdefghijklmnopqrstuvwxyzABCDEFGHIJKLMNOPQRSTUVWXYZ0123456789''
     @ [CHR 0x21, CHR 0x23, CHR 0x24, CHR 0x25, CHR 0x26, CHR 0x27, CHR 0x2A, CHR 0x2B,
        CHR 0x2D, CHR 0x2E, CHR 0x5E, CHR 0x5F, CHR 0x60, CHR 0x7C, CHR 0x7E]"

definition to_upper :: "char \<Rightarrow> char" where
  "to_upper c =
     (case map_of (zip ''abcdefghijklmnopqrstuvwxyz'' ''ABCDEFGHIJKLMNOPQRSTUVWXYZ'') c of
        Some u \<Rightarrow> u | None \<Rightarrow> c)"

definition to_lower :: "char \<Rightarrow> char" where
  "to_lower c =
     (case map_of (zip ''ABCDEFGHIJKLMNOPQRSTUVWXYZ'' ''abcdefghijklmnopqrstuvwxyz'') c of
        Some l \<Rightarrow> l | None \<Rightarrow> c)"

fun canonical :: "bool \<Rightarrow> string \<Rightarrow> string" where
  "canonical upper [] = []"
| "canonical upper (c # cs) =
     (let c' = (if upper then to_upper c else to_lower c)
      in c' # canonical (c' = CHR 0x2D) cs)"

definition CanonicalMIMEHeaderKey :: "string \<Rightarrow> string" where
  "CanonicalMIMEHeaderKey s = (if list_all (\<lambda>c. c \<in> set token_bytes) s then canonical True s else s)"

definition header_add :: "string \<Rightarrow> string \<Rightarrow> header \<Rightarrow> header" where
  "header_add key v h =
     (let k = CanonicalMIMEHeaderKey key
      in if k \<in> fst ` set h
         then map (\<lambda>(k', vs). if k' = k then (k', vs @ [v]) else (k', vs)) h
         else h @ [(k, [v])])"

text \<open>
  \<open>http.NewRequestWithContext\<close> of the sample environment: the empty method stands for
  \<open>GET\<close>, a method with a byte that is not a token byte is refused, and the request
  built has the URL parsed from the text, no header yet, and the body given.
\<close>

definition new_request :: "string \<Rightarrow> string \<Rightarrow> reader option \<Rightarrow> error + proxy_request" where
  "new_request m u body =
     (let method = (if m = [] then ''GET'' else m)
      in if \<not> list_all (\<lambda>c. c \<in> set token_bytes) method then Inl ''net/http: invalid method''
         else Inr \<lparr>pMethod = method, pURL = parse_url u, pHeader = [], pBody = body\<rparr>)"

text \<open>
  An environment in which the origin answers 200 with body \<open>b\<close>, every dial succeeds, and
  the client connection can be hijacked and written to.
\<close>

definition sample_env :: "string \<Rightarrow> env" where
  "sample_env b =
     \<lparr>readerToBuffer = readerToBuffer_spec,
      URL_String = url_string,
      NewRequestWithContext = new_request,
      Header_Add = header_add,
      client_Do = (\<lambda>c q. Inr (origin_reply b)),
      url_Parse = (\<lambda>s. Inr \<lparr>Scheme = ''http'', Host = s, Path = []\<rparr>),
      ProxyFromEnvironment = (\<lambda>u. Inr None),
      interceptor_dial = (\<lambda>req. None),
      getProxyConn = (\<lambda>u h. None),
      net_Dial = (\<lambda>h. None),
      Hijack = None,
      cconn_Write = (\<lambda>s. None)\<rparr>"

text \<open>The same environment with an origin that cannot be reached, and with a client
  connection that cannot be hijacked.\<close>

definition refusing_env :: env where
  "refusing_env = (sample_env [])\<lparr>client_Do := (\<lambda>c q. Inl ''connection refused'')\<rparr>"


text \<open>A proxy with the given addons and a threshold of four bytes.\<close>

definition sample_proxy :: "addon list \<Rightarrow> proxy" where
  "sample_proxy as =
     \<lparr>Opts = \<lparr>StreamLargeBodies = 4, Upstream = []\<rparr>, Addons = as,
      shouldIntercept = None, upstreamProxy = None\<rparr>"

definition sample_cc :: conn_context where
  "sample_cc = \<lparr>Intercept = False, FlowCount = 0, closeAfterResponse = False\<rparr>"

text \<open>A request for \<open>http://origin/\<close> with the given method and body.\<close>

definition sample_request :: "string \<Rightarrow> string \<Rightarrow> http_request" where
  "sample_request m b =
     \<lparr>hMethod = m, hURL = \<lparr>Scheme = ''http'', Host = ''origin'', Path = ''/''\<rparr>,
      hHost = ''origin'', hHeader = [], hBody = bytes_reader b\<rparr>"

text \<open>A request for \<open>http://origin/\<close> whose body fails after two bytes.\<close>

definition broken_request :: http_request where
  "broken_request =
     (sample_request ''POST'' [])\<lparr>hBody := \<lparr>content = ''ab'', read_error = True\<rparr>\<rparr>"


text \<open>A response with a header, a body reader and a buffered body.\<close>

definition sample_response :: response where
  "sample_response =
     \<lparr>StatusCode = 200, ResHeader = [(''X'', [''1''])], ResBody = Some ''C'',
      BodyReader = Some (bytes_reader ''B''), close = False\<rparr>"



definition canned :: response where
  "canned = \<lparr>StatusCode = 418, ResHeader = [(''Server'', [''teapot''])],
              ResBody = Some ''stout'', BodyReader = Some (bytes_reader ''short''),
              close = True\<rparr>"

definition canned_addon :: addon where
  "canned_addon = BaseAddon\<lparr>Requestheaders := (\<lambda>f. Some (f\<lparr>Response := Some canned\<rparr>))\<rparr>"

definition unset_status :: response where
  "unset_status = \<lparr>StatusCode = 0, ResHeader = [(''X'', [''1''])], ResBody = Some ''body'',
                    BodyReader = None, close = False\<rparr>"

definition unset_status_addon :: addon where
  "unset_status_addon =
     BaseAddon\<lparr>Requestheaders := (\<lambda>f. Some (f\<lparr>Response := Some unset_status\<rparr>))\<rparr>"


definition garbling_addon :: addon where
  "garbling_addon =
     BaseAddon\<lparr>Requestheaders :=
       (\<lambda>f. Some (f\<lparr>Request := (Request f)\<lparr>Method := ''GET /''\<rparr>\<rparr>))\<rparr>"

definition panicking_addon :: addon where
  "panicking_addon = BaseAddon\<lparr>Requestheaders := (\<lambda>f. None)\<rparr>"

definition buffering_addon :: addon where
  "buffering_addon = BaseAddon\<lparr>Responseheaders := (\<lambda>f. Some (f\<lparr>Stream := False\<rparr>))\<rparr>"


section \<open>Properties\<close>

subsection \<open>Runs and their events\<close>

lemma fst_after [simp]: "fst (after tr r) = tr @ fst r"
  by (simp add: after_def)

lemma snd_after [simp]: "snd (after tr r) = snd r"
  by (simp add: after_def)

lemma body_sent_Nil [simp]: "body_sent [] = []"
  by (simp add: body_sent_def)

lemma body_sent_Cons [simp]: "body_sent (e # es) = written e @ body_sent es"
  by (simp add: body_sent_def)

lemma body_sent_append [simp]: "body_sent (xs @ ys) = body_sent xs @ body_sent ys"
  by (simp add: body_sent_def)

lemma fire_all_events:
  "fire_all h sel as f = (tr, res) \<Longrightarrow> \<forall>e\<in>set tr. is_call h e"
  by (induction as arbitrary: f tr res) (auto split: option.splits prod.splits)

lemma fire_modifiers_events:
  "fire_modifiers h sel as f b = (tr, res) \<Longrightarrow> \<forall>e\<in>set tr. is_call h e"
  by (induction as arbitrary: f b tr res) (auto split: option.splits prod.splits)

lemma fire_until_response_events:
  "fire_until_response h sel as f = (tr, res) \<Longrightarrow> \<forall>e\<in>set tr. is_call h e"
  by (induction as arbitrary: f tr res) (auto split: option.splits prod.splits if_splits)

lemma fire_Responseheaders_events:
  "fire_Responseheaders as f = (tr, res) \<Longrightarrow> \<forall>e\<in>set tr. is_call HResponseheaders e"
  by (induction as arbitrary: f tr res) (auto split: option.splits prod.splits if_splits)

lemma reply_events: "\<forall>e\<in>set (fst (reply r b)). phase e = 7"
  by (auto simp: reply_def copy_def Let_def split: option.splits if_splits)

lemma getUpstreamConn_events:
  "\<forall>e\<in>set (fst (getUpstreamConn en p req)). (\<exists>u h. e = DialProxy u h) \<or> (\<exists>h. e = DialDirect h)"
  by (auto simp: getUpstreamConn_def split: sum.splits option.splits)

lemma dial_tunnel_events:
  "\<forall>e\<in>set (fst (dial_tunnel en p req i)).
     (\<exists>h. e = DialInterceptor h) \<or> (\<exists>u h. e = DialProxy u h) \<or> (\<exists>h. e = DialDirect h)"
  using getUpstreamConn_events[of en p req] by (auto simp: dial_tunnel_def)

lemma access_all_events:
  "access_all as req = (tr, r) \<Longrightarrow> \<forall>e\<in>set tr. \<exists>i w. e = AccessProxy i w"
  by (induction as arbitrary: tr r) (auto split: option.splits prod.splits)

lemma is_call_phase:
  "is_call h e \<Longrightarrow>
   phase e = (case h of HRequestheaders \<Rightarrow> 0 | HRequest \<Rightarrow> 1 | HStreamRequestModifier \<Rightarrow> 2
      | HResponseheaders \<Rightarrow> 4 | HResponse \<Rightarrow> 5 | HStreamResponseModifier \<Rightarrow> 6)"
  by (cases e) auto

lemma call_not_write: "is_call h e \<Longrightarrow> \<not> is_write e"
  by (cases e) auto

lemma call_not_error: "is_call h e \<Longrightarrow> e \<noteq> LogError s"
  by (cases e) auto

lemma call_not_Do: "is_call h e \<Longrightarrow> e \<noteq> Do c g q"
  by (cases e) auto

subsection \<open>The handlers by cases\<close>

text \<open>One rule for each part of the handlers: the ways through it, each with the results of the calls it makes and the run it gives.\<close>

lemma send_reply_cases:
  obtains (Nil) "Response f = None" "send_reply f b = ([], Panicking f)"
  | (Reply) r where "Response f = Some r" "checkWriteHeaderCode (StatusCode r)"
      "send_reply f b = (fst (reply r b), Return f)"
  | (Refused) r where "Response f = Some r" "\<not> checkWriteHeaderCode (StatusCode r)"
      "send_reply f b = (fst (reply r b), Panicking f)"
proof (cases "Response f")
  case None
  then show ?thesis by (auto simp: send_reply_def intro: Nil)
next
  case (Some r)
  then show ?thesis
    by (cases "checkWriteHeaderCode (StatusCode r)")
       (auto simp: send_reply_def reply_def Let_def intro: Reply Refused)
qed

lemma modify_and_reply_cases:
  obtains (Panic) tr f' where
      "fire_modifiers HStreamResponseModifier StreamResponseModifier
         (enumerate 0 (Addons p)) f b = (tr, PanicsIn f')"
      "modify_and_reply p f b = (tr, Panicking f')"
  | (Reply) tr f' b' where
      "fire_modifiers HStreamResponseModifier StreamResponseModifier
         (enumerate 0 (Addons p)) f b = (tr, Done (f', b'))"
      "modify_and_reply p f b = after tr (send_reply f' b')"
proof (cases "fire_modifiers HStreamResponseModifier StreamResponseModifier
         (enumerate 0 (Addons p)) f b")
  case (Pair tr res)
  then show ?thesis
    by (cases res) (auto simp: modify_and_reply_def intro: that)
qed

lemma read_response_body_cases:
  obtains (Streaming) "Stream f" "read_response_body en p f b = modify_and_reply p f (Some b)"
  | (Error) err where "\<not> Stream f"
      "readerToBuffer en b (StreamLargeBodies (Opts p)) = Inl err"
      "read_response_body en p f b
         = ([ReaderToBuffer ReadResponseBody b (StreamLargeBodies (Opts p)),
             LogError ReadResponseBody, WriteHeader 502], Return f)"
  | (TooLarge) r where "\<not> Stream f"
      "readerToBuffer en b (StreamLargeBodies (Opts p)) = Inr (None, r)"
      "read_response_body en p f b
         = after [ReaderToBuffer ReadResponseBody b (StreamLargeBodies (Opts p)),
                  LogBodyTooLarge ReadResponseBody]
             (modify_and_reply p (f\<lparr>Stream := True\<rparr>) r)"
  | (NilResponse) buf r where "\<not> Stream f"
      "readerToBuffer en b (StreamLargeBodies (Opts p)) = Inr (Some buf, r)"
      "Response f = None"
      "read_response_body en p f b
         = ([ReaderToBuffer ReadResponseBody b (StreamLargeBodies (Opts p))], Panicking f)"
  | (HookPanic) buf r resp tr f' where "\<not> Stream f"
      "readerToBuffer en b (StreamLargeBodies (Opts p)) = Inr (Some buf, r)"
      "Response f = Some resp"
      "fire_all HResponse Response_hook (enumerate 0 (Addons p))
         (f\<lparr>Response := Some (resp\<lparr>ResBody := Some buf\<rparr>)\<rparr>) = (tr, PanicsIn f')"
      "read_response_body en p f b
         = (ReaderToBuffer ReadResponseBody b (StreamLargeBodies (Opts p)) # tr, Panicking f')"
  | (Buffered) buf r resp tr f' where "\<not> Stream f"
      "readerToBuffer en b (StreamLargeBodies (Opts p)) = Inr (Some buf, r)"
      "Response f = Some resp"
      "fire_all HResponse Response_hook (enumerate 0 (Addons p))
         (f\<lparr>Response := Some (resp\<lparr>ResBody := Some buf\<rparr>)\<rparr>) = (tr, Done f')"
      "read_response_body en p f b
         = after (ReaderToBuffer ReadResponseBody b (StreamLargeBodies (Opts p)) # tr)
             (modify_and_reply p f' r)"
proof (cases "Stream f")
  case True
  then show ?thesis by (auto simp: read_response_body_def intro: Streaming)
next
  case ns: False
  show ?thesis
  proof (cases "readerToBuffer en b (StreamLargeBodies (Opts p))")
    case (Inl err)
    with ns show ?thesis by (auto simp: read_response_body_def after_def intro: Error)
  next
    case (Inr x)
    obtain bo r where x: "x = (bo, r)" by (cases x)
    show ?thesis
    proof (cases bo)
      case None
      with ns Inr x show ?thesis by (auto simp: read_response_body_def after_def intro: TooLarge)
    next
      case (Some buf)
      show ?thesis
      proof (cases "Response f")
        case None
        with ns Inr x Some show ?thesis by (auto simp: read_response_body_def after_def intro: NilResponse)
      next
        case (Some resp)
        note rs = this
        obtain tr res where fa: "fire_all HResponse Response_hook (enumerate 0 (Addons p))
         (f\<lparr>Response := Some (resp\<lparr>ResBody := Some buf\<rparr>)\<rparr>) = (tr, res)"
          by (cases "fire_all HResponse Response_hook (enumerate 0 (Addons p))
         (f\<lparr>Response := Some (resp\<lparr>ResBody := Some buf\<rparr>)\<rparr>)")
        show ?thesis
        proof (cases res)
          case (Done f')
          with ns Inr x \<open>bo = Some buf\<close> rs fa show ?thesis
            by (auto simp: read_response_body_def after_def intro: Buffered)
        next
          case (PanicsIn f')
          with ns Inr x \<open>bo = Some buf\<close> rs fa show ?thesis
            by (auto simp: read_response_body_def after_def intro: HookPanic)
        qed
      qed
    qed
  qed
qed

lemma handle_origin_response_cases:
  obtains (Panic) tr f' where
      "fire_Responseheaders (enumerate 0 (Addons p)) (receive_response f r) = (tr, Panics f')"
      "handle_origin_response en p f r = (tr @ [BodyClose], Panicking f')"
  | (Short) tr f' where
      "fire_Responseheaders (enumerate 0 (Addons p)) (receive_response f r) = (tr, ShortCircuit f')"
      "handle_origin_response en p f r
         = (tr @ fst (send_reply f' None) @ [BodyClose], snd (send_reply f' None))"
  | (Proceed) tr f' where
      "fire_Responseheaders (enumerate 0 (Addons p)) (receive_response f r) = (tr, Proceed f')"
      "handle_origin_response en p f r
         = (tr @ fst (read_response_body en p f' (oBody r)) @ [BodyClose],
            snd (read_response_body en p f' (oBody r)))"
proof (cases "fire_Responseheaders (enumerate 0 (Addons p)) (receive_response f r)")
  case (Pair tr res)
  then show ?thesis
    by (cases res) (auto simp: handle_origin_response_def intro: that)
qed

lemma forward_request_cases:
  obtains (Panic) tr f' where
      "fire_modifiers HStreamRequestModifier StreamRequestModifier
         (enumerate 0 (Addons p)) f b = (tr, PanicsIn f')"
      "forward_request en p h sc f b = (tr, Panicking f')"
  | (BuildError) tr f' b' err where
      "fire_modifiers HStreamRequestModifier StreamRequestModifier
         (enumerate 0 (Addons p)) f b = (tr, Done (f', b'))"
      "NewRequestWithContext en (Method (Request f')) (URL_String en (URL (Request f'))) b'
         = Inl err"
      "forward_request en p h sc f b
         = (tr @ [NewRequest (Method (Request f')) (URL_String en (URL (Request f'))) b',
                  LogError BuildRequest, WriteHeader 502], Return f')"
  | (SendError) tr f' b' q0 err where
      "fire_modifiers HStreamRequestModifier StreamRequestModifier
         (enumerate 0 (Addons p)) f b = (tr, Done (f', b'))"
      "NewRequestWithContext en (Method (Request f')) (URL_String en (URL (Request f'))) b'
         = Inr q0"
      "client_Do en (select_client h sc f') (add_headers en (Header (Request f')) q0) = Inl err"
      "forward_request en p h sc f b
         = (tr @ [NewRequest (Method (Request f')) (URL_String en (URL (Request f'))) b',
                  InitHttpServerConn,
                  Do (select_client h sc f') f' (add_headers en (Header (Request f')) q0),
                  LogError SendRequest, WriteHeader 502], Return f')"
  | (Sent) tr f' b' q0 r where
      "fire_modifiers HStreamRequestModifier StreamRequestModifier
         (enumerate 0 (Addons p)) f b = (tr, Done (f', b'))"
      "NewRequestWithContext en (Method (Request f')) (URL_String en (URL (Request f'))) b'
         = Inr q0"
      "client_Do en (select_client h sc f') (add_headers en (Header (Request f')) q0) = Inr r"
      "forward_request en p h sc f b
         = (tr @ [NewRequest (Method (Request f')) (URL_String en (URL (Request f'))) b',
                  InitHttpServerConn,
                  Do (select_client h sc f') f' (add_headers en (Header (Request f')) q0)]
               @ fst (handle_origin_response en p f' r),
            snd (handle_origin_response en p f' r))"
proof (cases "fire_modifiers HStreamRequestModifier StreamRequestModifier
         (enumerate 0 (Addons p)) f b")
  case (Pair tr res)
  show ?thesis
  proof (cases res)
    case (PanicsIn f')
    with Pair show ?thesis by (auto simp: forward_request_def intro: Panic)
  next
    case (Done x)
    obtain f' b' where x: "x = (f', b')" by (cases x)
    show ?thesis
    proof (cases "NewRequestWithContext en (Method (Request f')) (URL_String en (URL (Request f'))) b'")
      case (Inl err)
      with Pair Done x show ?thesis
        by (auto simp: forward_request_def after_def intro: BuildError)
    next
      case built: (Inr q0)
      show ?thesis
      proof (cases "client_Do en (select_client h sc f') (add_headers en (Header (Request f')) q0)")
        case (Inl err)
        with Pair Done x built show ?thesis
          by (auto simp: forward_request_def after_def Let_def intro: SendError)
      next
        case (Inr r)
        with Pair Done x built show ?thesis
          by (auto simp: forward_request_def after_def Let_def intro: Sent)
      qed
    qed
  qed
qed

lemma read_request_body_cases:
  obtains (Streaming) "Stream f"
      "read_request_body en p req h sc f = forward_request en p h sc f (Some (hBody req))"
  | (Error) err where "\<not> Stream f"
      "readerToBuffer en (hBody req) (StreamLargeBodies (Opts p)) = Inl err"
      "read_request_body en p req h sc f
         = ([ReaderToBuffer ReadRequestBody (hBody req) (StreamLargeBodies (Opts p)),
             LogError ReadRequestBody, WriteHeader 502], Return f)"
  | (TooLarge) r where "\<not> Stream f"
      "readerToBuffer en (hBody req) (StreamLargeBodies (Opts p)) = Inr (None, r)"
      "read_request_body en p req h sc f
         = after [ReaderToBuffer ReadRequestBody (hBody req) (StreamLargeBodies (Opts p)),
                  LogBodyTooLarge ReadRequestBody]
             (forward_request en p h sc (f\<lparr>Stream := True\<rparr>) r)"
  | (HookPanic) buf r tr f' where "\<not> Stream f"
      "readerToBuffer en (hBody req) (StreamLargeBodies (Opts p)) = Inr (Some buf, r)"
      "fire_until_response HRequest Request_hook (enumerate 0 (Addons p))
         (f\<lparr>Request := (Request f)\<lparr>Body := Some buf\<rparr>\<rparr>) = (tr, Panics f')"
      "read_request_body en p req h sc f
         = (ReaderToBuffer ReadRequestBody (hBody req) (StreamLargeBodies (Opts p)) # tr,
            Panicking f')"
  | (Short) buf r tr f' where "\<not> Stream f"
      "readerToBuffer en (hBody req) (StreamLargeBodies (Opts p)) = Inr (Some buf, r)"
      "fire_until_response HRequest Request_hook (enumerate 0 (Addons p))
         (f\<lparr>Request := (Request f)\<lparr>Body := Some buf\<rparr>\<rparr>) = (tr, ShortCircuit f')"
      "read_request_body en p req h sc f
         = after (ReaderToBuffer ReadRequestBody (hBody req) (StreamLargeBodies (Opts p)) # tr)
             (send_reply f' None)"
  | (Buffered) buf r tr f' where "\<not> Stream f"
      "readerToBuffer en (hBody req) (StreamLargeBodies (Opts p)) = Inr (Some buf, r)"
      "fire_until_response HRequest Request_hook (enumerate 0 (Addons p))
         (f\<lparr>Request := (Request f)\<lparr>Body := Some buf\<rparr>\<rparr>) = (tr, Proceed f')"
      "read_request_body en p req h sc f
         = after (ReaderToBuffer ReadRequestBody (hBody req) (StreamLargeBodies (Opts p)) # tr)
             (forward_request en p h sc f'
               (Some \<lparr>content = (case Body (Request f') of None \<Rightarrow> [] | Some b \<Rightarrow> b),
                      read_error = False\<rparr>))"
proof (cases "Stream f")
  case True
  then show ?thesis by (auto simp: read_request_body_def intro: Streaming)
next
  case ns: False
  show ?thesis
  proof (cases "readerToBuffer en (hBody req) (StreamLargeBodies (Opts p))")
    case (Inl err)
    with ns show ?thesis by (auto simp: read_request_body_def after_def intro: Error)
  next
    case (Inr x)
    obtain bo r where x: "x = (bo, r)" by (cases x)
    show ?thesis
    proof (cases bo)
      case None
      with ns Inr x show ?thesis by (auto simp: read_request_body_def after_def intro: TooLarge)
    next
      case (Some buf)
      obtain tr res where fa: "fire_until_response HRequest Request_hook (enumerate 0 (Addons p))
         (f\<lparr>Request := (Request f)\<lparr>Body := Some buf\<rparr>\<rparr>) = (tr, res)"
        by (cases "fire_until_response HRequest Request_hook (enumerate 0 (Addons p))
         (f\<lparr>Request := (Request f)\<lparr>Body := Some buf\<rparr>\<rparr>)")
      show ?thesis
      proof (cases res)
        case (Proceed f')
        with ns Inr x Some fa show ?thesis
          by (auto simp: read_request_body_def after_def intro: Buffered)
      next
        case (ShortCircuit f')
        with ns Inr x Some fa show ?thesis
          by (auto simp: read_request_body_def after_def intro: Short)
      next
        case (Panics f')
        with ns Inr x Some fa show ?thesis
          by (auto simp: read_request_body_def after_def intro: HookPanic)
      qed
    qed
  qed
qed

lemma forward_pipeline_cases:
  obtains (Panic) tr f' where
      "fire_until_response HRequestheaders Requestheaders (enumerate 0 (Addons p))
         (first_flow cc req) = (tr, Panics f')"
      "forward_pipeline en p cc req = (tr, Panicking f')"
  | (Short) tr f' where
      "fire_until_response HRequestheaders Requestheaders (enumerate 0 (Addons p))
         (first_flow cc req) = (tr, ShortCircuit f')"
      "forward_pipeline en p cc req = after tr (send_reply f' None)"
  | (Proceed) tr f' where
      "fire_until_response HRequestheaders Requestheaders (enumerate 0 (Addons p))
         (first_flow cc req) = (tr, Proceed f')"
      "forward_pipeline en p cc req
         = after tr (read_request_body en p req (Host (hURL req)) (Scheme (hURL req)) f')"
proof (cases "fire_until_response HRequestheaders Requestheaders (enumerate 0 (Addons p))
         (first_flow cc req)")
  case (Pair tr res)
  then show ?thesis
    by (cases res)
       (auto simp: forward_pipeline_def first_flow_def newFlow_def newRequest_def Let_def
          intro: that)
qed

lemma handleConnect_cases:
  obtains (HeadersPanic) tr f' where
      "fire_all HRequestheaders Requestheaders (enumerate 0 (Addons p)) (connect_flow p cc req)
         = (tr, PanicsIn f')"
      "handleConnect en p cc req = (tr @ [Finish f'], Panicked)"
  | (DialError) tr f1 err where
      "fire_all HRequestheaders Requestheaders (enumerate 0 (Addons p)) (connect_flow p cc req)
         = (tr, Done f1)"
      "snd (dial_tunnel en p req (intercepts p req)) = Some err"
      "handleConnect en p cc req
         = (tr @ fst (dial_tunnel en p req (intercepts p req))
               @ [LogError DialTunnel, WriteHeader 502, Finish f1], Returned)"
  | (HijackError) tr f1 err where
      "fire_all HRequestheaders Requestheaders (enumerate 0 (Addons p)) (connect_flow p cc req)
         = (tr, Done f1)"
      "snd (dial_tunnel en p req (intercepts p req)) = None"
      "Hijack en = Some err"
      "handleConnect en p cc req
         = (tr @ fst (dial_tunnel en p req (intercepts p req))
               @ [LogError HijackClient, WriteHeader 502, ConnClose, Finish f1], Returned)"
  | (WriteError) tr f1 err where
      "fire_all HRequestheaders Requestheaders (enumerate 0 (Addons p)) (connect_flow p cc req)
         = (tr, Done f1)"
      "snd (dial_tunnel en p req (intercepts p req)) = None"
      "Hijack en = None" "cconn_Write en established = Some err"
      "handleConnect en p cc req
         = (tr @ fst (dial_tunnel en p req (intercepts p req))
               @ [HijackConn, ConnWrite established, LogError WriteEstablished,
                  ClientConnClose, ConnClose, Finish f1],
            Returned)"
  | (ResponseheadersPanic) tr f1 tr2 f' where
      "fire_all HRequestheaders Requestheaders (enumerate 0 (Addons p)) (connect_flow p cc req)
         = (tr, Done f1)"
      "snd (dial_tunnel en p req (intercepts p req)) = None"
      "Hijack en = None" "cconn_Write en established = None"
      "fire_all HResponseheaders Responseheaders (enumerate 0 (Addons p))
         (f1\<lparr>Response := Some synthetic_response\<rparr>) = (tr2, PanicsIn f')"
      "handleConnect en p cc req
         = (tr @ fst (dial_tunnel en p req (intercepts p req))
               @ [HijackConn, ConnWrite established] @ tr2
               @ [ClientConnClose, ConnClose, Finish f'], Panicked)"
  | (ResponsePanic) tr f1 tr2 f3 tr3 f' where
      "fire_all HRequestheaders Requestheaders (enumerate 0 (Addons p)) (connect_flow p cc req)
         = (tr, Done f1)"
      "snd (dial_tunnel en p req (intercepts p req)) = None"
      "Hijack en = None" "cconn_Write en established = None"
      "fire_all HResponseheaders Responseheaders (enumerate 0 (Addons p))
         (f1\<lparr>Response := Some synthetic_response\<rparr>) = (tr2, Done f3)"
      "fire_all HResponse Response_hook (enumerate 0 (Addons p)) f3 = (tr3, PanicsIn f')"
      "handleConnect en p cc req
         = (tr @ fst (dial_tunnel en p req (intercepts p req))
               @ [HijackConn, ConnWrite established] @ tr2 @ [Transfer] @ tr3
               @ [ClientConnClose, ConnClose, Finish f'], Panicked)"
  | (Tunnel) tr f1 tr2 f3 tr3 f4 where
      "fire_all HRequestheaders Requestheaders (enumerate 0 (Addons p)) (connect_flow p cc req)
         = (tr, Done f1)"
      "snd (dial_tunnel en p req (intercepts p req)) = None"
      "Hijack en = None" "cconn_Write en established = None"
      "fire_all HResponseheaders Responseheaders (enumerate 0 (Addons p))
         (f1\<lparr>Response := Some synthetic_response\<rparr>) = (tr2, Done f3)"
      "fire_all HResponse Response_hook (enumerate 0 (Addons p)) f3 = (tr3, Done f4)"
      "handleConnect en p cc req
         = (tr @ fst (dial_tunnel en p req (intercepts p req))
               @ [HijackConn, ConnWrite established] @ tr2 @ [Transfer] @ tr3
               @ [ClientConnClose, ConnClose, Finish f4], Returned)"
proof (cases "fire_all HRequestheaders Requestheaders (enumerate 0 (Addons p))
                (connect_flow p cc req)")
  case (Pair tr res)
  note rh = this
  show ?thesis
  proof (cases res)
    case (PanicsIn f')
    with rh show ?thesis
      by (auto simp: handleConnect_def connect_flow_def Let_def intro: HeadersPanic)
  next
    case (Done f1)
    note d1 = this
    obtain dtr derr where dial: "dial_tunnel en p req (intercepts p req) = (dtr, derr)"
      by (cases "dial_tunnel en p req (intercepts p req)")
    show ?thesis
    proof (cases derr)
      case (Some err)
      with rh d1 dial show ?thesis
        by (auto simp: handleConnect_def connect_flow_def Let_def intro: DialError)
    next
      case None
      note dn = this
      show ?thesis
      proof (cases "Hijack en")
        case (Some err)
        with rh d1 dial dn show ?thesis
          by (auto simp: handleConnect_def connect_flow_def Let_def intro: HijackError)
      next
        case None
        note hn = this
        show ?thesis
        proof (cases "cconn_Write en established")
          case (Some err)
          with rh d1 dial dn hn show ?thesis
            by (auto simp: handleConnect_def connect_flow_def Let_def intro: WriteError)
        next
          case None
          note wn = this
          obtain tr2 res2 where r2: "fire_all HResponseheaders Responseheaders
             (enumerate 0 (Addons p)) (f1\<lparr>Response := Some synthetic_response\<rparr>) = (tr2, res2)"
            by (cases "fire_all HResponseheaders Responseheaders
             (enumerate 0 (Addons p)) (f1\<lparr>Response := Some synthetic_response\<rparr>)")
          show ?thesis
          proof (cases res2)
            case (PanicsIn f')
            with rh d1 dial dn hn wn r2 show ?thesis
              by (auto simp: handleConnect_def connect_flow_def Let_def
                    intro: ResponseheadersPanic)
          next
            case (Done f3)
            note d3 = this
            obtain tr3 res3 where r3:
              "fire_all HResponse Response_hook (enumerate 0 (Addons p)) f3 = (tr3, res3)"
              by (cases "fire_all HResponse Response_hook (enumerate 0 (Addons p)) f3")
            show ?thesis
            proof (cases res3)
              case (PanicsIn f')
              with rh d1 dial dn hn wn r2 d3 r3 show ?thesis
                by (auto simp: handleConnect_def connect_flow_def Let_def intro: ResponsePanic)
            next
              case (Done f4)
              with rh d1 dial dn hn wn r2 d3 r3 show ?thesis
                by (auto simp: handleConnect_def connect_flow_def Let_def intro: Tunnel)
            qed
          qed
        qed
      qed
    qed
  qed
qed

lemma ServeHTTP_forward:
  assumes "hMethod req \<noteq> ''CONNECT''" and "IsAbs (hURL req)" and "Host (hURL req) \<noteq> []"
  shows "ServeHTTP en p cc req
     = (case snd (forward_pipeline en p cc req) of
          Return f \<Rightarrow> (fst (forward_pipeline en p cc req) @ [Finish f], Returned)
        | Panicking f \<Rightarrow> (fst (forward_pipeline en p cc req) @ [Finish f, LogRecovered], Returned))"
  using assms by (simp add: ServeHTTP_def split: exit.splits prod.splits)

lemma ServeHTTP_connect:
  "hMethod req = ''CONNECT'' \<Longrightarrow> ServeHTTP en p cc req = handleConnect en p cc req"
  by (simp add: ServeHTTP_def)

subsection \<open>The order of the forward pipeline\<close>

text \<open>From a part of the pipeline onwards, only events of that part and of later ones occur.\<close>

lemma send_reply_phase: "\<forall>e\<in>set (fst (send_reply f b)). phase e = 7"
  by (cases rule: send_reply_cases[where f=f and b=b]) (use reply_events in auto)

lemma modify_and_reply_phase: "\<forall>e\<in>set (fst (modify_and_reply p f b)). 6 \<le> phase e"
proof (cases rule: modify_and_reply_cases[where p=p and f=f and b=b])
  case (Panic tr f')
  from fire_modifiers_events[OF Panic(1)] Panic(2) show ?thesis
    by (auto dest!: is_call_phase)
next
  case (Reply tr f' b')
  from fire_modifiers_events[OF Reply(1)] Reply(2) send_reply_phase[of f' b'] show ?thesis
    by (auto dest!: is_call_phase)
qed

lemma read_response_body_phase: "\<forall>e\<in>set (fst (read_response_body en p f b)). 5 \<le> phase e"
proof (cases rule: read_response_body_cases[where en=en and p=p and f=f and b=b])
  case Streaming
  with modify_and_reply_phase[of p f "Some b"] show ?thesis by auto
next
  case (Error err)
  then show ?thesis by simp
next
  case (TooLarge r)
  with modify_and_reply_phase[of p "f\<lparr>Stream := True\<rparr>" r] show ?thesis by auto
next
  case (NilResponse buf r)
  then show ?thesis by simp
next
  case (HookPanic buf r resp tr f')
  from fire_all_events[OF HookPanic(4)] HookPanic(5) show ?thesis
    by (auto dest!: is_call_phase)
next
  case (Buffered buf r resp tr f')
  from fire_all_events[OF Buffered(4)] Buffered(5) modify_and_reply_phase[of p f' r]
  show ?thesis by (auto dest!: is_call_phase)
qed

lemma handle_origin_response_phase:
  "\<forall>e\<in>set (fst (handle_origin_response en p f r)). 4 \<le> phase e"
proof (cases rule: handle_origin_response_cases[where en=en and p=p and f=f and r=r])
  case (Panic tr f')
  from fire_Responseheaders_events[OF Panic(1)] Panic(2) show ?thesis
    by (auto dest!: is_call_phase)
next
  case (Short tr f')
  from fire_Responseheaders_events[OF Short(1)] Short(2) send_reply_phase[of f' None]
  show ?thesis by (auto dest!: is_call_phase)
next
  case (Proceed tr f')
  from fire_Responseheaders_events[OF Proceed(1)] Proceed(2)
    read_response_body_phase[of en p f' "oBody r"]
  show ?thesis by (auto dest!: is_call_phase)
qed

lemma forward_request_phase: "\<forall>e\<in>set (fst (forward_request en p h sc f b)). 2 \<le> phase e"
proof (cases rule: forward_request_cases[where en=en and p=p and f=f and b=b and h=h and sc=sc])
  case (Panic tr f')
  from fire_modifiers_events[OF Panic(1)] Panic(2) show ?thesis
    by (auto dest!: is_call_phase)
next
  case (BuildError tr f' b' err)
  from fire_modifiers_events[OF BuildError(1)] BuildError(3) show ?thesis
    by (auto dest!: is_call_phase)
next
  case (SendError tr f' b' q0 err)
  from fire_modifiers_events[OF SendError(1)] SendError(4) show ?thesis
    by (auto dest!: is_call_phase)
next
  case (Sent tr f' b' q0 r)
  from fire_modifiers_events[OF Sent(1)] Sent(4) handle_origin_response_phase[of en p f' r]
  show ?thesis by (fastforce dest!: is_call_phase)
qed

lemma read_request_body_phase:
  "\<forall>e\<in>set (fst (read_request_body en p req h sc f)). 1 \<le> phase e"
proof (cases rule: read_request_body_cases[where en=en and p=p and f=f and req=req and h=h and sc=sc])
  case Streaming
  with forward_request_phase[of en p h sc f] show ?thesis by fastforce
next
  case (Error err)
  then show ?thesis by simp
next
  case (TooLarge r)
  with forward_request_phase[of en p h sc "f\<lparr>Stream := True\<rparr>" r] show ?thesis by fastforce
next
  case (HookPanic buf r tr f')
  from fire_until_response_events[OF HookPanic(3)] HookPanic(4) show ?thesis
    by (auto dest!: is_call_phase)
next
  case (Short buf r tr f')
  from fire_until_response_events[OF Short(3)] Short(4) send_reply_phase[of f' None]
  show ?thesis by (auto dest!: is_call_phase)
next
  case (Buffered buf r tr f')
  from fire_until_response_events[OF Buffered(3)] Buffered(4)
    forward_request_phase[of en p h sc f']
  show ?thesis by (fastforce dest!: is_call_phase)
qed

lemma early_phase: "1 \<le> phase e \<Longrightarrow> \<not> is_call HRequestheaders e"
  by (cases e) auto

lemma late_not_error: "origin_side s \<Longrightarrow> 4 \<le> phase e \<Longrightarrow> e \<noteq> LogError s"
  by (cases e) (auto simp: origin_side_def)

lemma late_not_call:
  "k \<le> phase e \<Longrightarrow>
   (case h of HRequestheaders \<Rightarrow> 0 | HRequest \<Rightarrow> 1 | HStreamRequestModifier \<Rightarrow> 2
      | HResponseheaders \<Rightarrow> 4 | HResponse \<Rightarrow> 5 | HStreamResponseModifier \<Rightarrow> 6) < k
   \<Longrightarrow> \<not> is_call h e"
  by (cases e) (auto split: hook.splits)

subsection \<open>Evaluating the concrete runs\<close>

lemmas sample_defs =
  sample_env_def sample_proxy_def sample_cc_def sample_request_def BaseAddon_def
  readerToBuffer_spec_def bytes_reader_def origin_reply_def url_string_def parse_url_def
  new_request_def token_bytes_def

lemmas pipeline_defs =
  ServeHTTP_def IsAbs_def forward_pipeline_def newFlow_def newRequest_def
  read_request_body_def forward_request_def after_def select_client_def
  useSeparateClient_def add_headers_def handle_origin_response_def
  receive_response_def read_response_body_def modify_and_reply_def send_reply_def
  reply_def checkWriteHeaderCode_def copy_def enumerate_eq_zip Let_def

lemmas connect_defs =
  handleConnect_def intercepts_def dial_tunnel_def getUpstreamConn_def
  getUpstreamProxyUrl_def synthetic_response_def

lemma sample_forward:
  "hMethod (sample_request ''GET'' []) \<noteq> ''CONNECT''"
  "IsAbs (hURL (sample_request ''GET'' []))"
  "Host (hURL (sample_request ''GET'' [])) \<noteq> []"
  by (simp_all add: sample_request_def IsAbs_def)

subsection \<open>Hooks and the stream flag\<close>

lemma fired_Nil [simp]: "fired h [] = []"
  by (simp add: fired_def)

lemma fired_Cons [simp]: "fired h (e # es) = fired_on h e @ fired h es"
  by (simp add: fired_def)

lemma fired_append [simp]: "fired h (xs @ ys) = fired h xs @ fired h ys"
  by (simp add: fired_def)

lemma fired_on_other: "\<not> is_call h e \<Longrightarrow> fired_on h e = []"
  by (cases e) auto

lemma fired_none: "\<forall>e\<in>set tr. \<not> is_call h e \<Longrightarrow> fired h tr = []"
  by (induction tr) (auto simp: fired_on_other)

lemma fired_late:
  assumes "\<forall>e\<in>set tr. k \<le> phase e"
      and "(case h of HRequestheaders \<Rightarrow> 0 | HRequest \<Rightarrow> 1 | HStreamRequestModifier \<Rightarrow> 2
      | HResponseheaders \<Rightarrow> 4 | HResponse \<Rightarrow> 5 | HStreamResponseModifier \<Rightarrow> 6) < k"
  shows "fired h tr = []"
  using assms by (intro fired_none) (auto dest: late_not_call)

lemma other_hook_quiet:
  assumes "\<forall>e\<in>set pre. is_call k e" and "h \<noteq> k"
  shows "fired h pre = []"
proof (rule fired_none)
  show "\<forall>e\<in>set pre. \<not> is_call h e"
  proof
    fix e assume "e \<in> set pre"
    with assms(1) have "is_call k e" by blast
    with assms(2) show "\<not> is_call h e" by (cases e) auto
  qed
qed









lemma fired_response_later: "fired HResponse (fst (modify_and_reply p f b)) = []"
  using modify_and_reply_phase[of p f b] by (intro fired_late[where k=6]) auto




text \<open>Reading of the bodies, by parts of a run.\<close>

lemma attempted_simps [simp]:
  "attempted s [] = False"
  "attempted s (e # es) = (read_at e = Some s \<or> attempted s es)"
  "attempted s (xs @ ys) = (attempted s xs \<or> attempted s ys)"
  by (auto simp: attempted_def)

lemma buffered_simps [simp]:
  "buffered en s [] = False"
  "buffered en s (e # es) = (buffers en e = Some s \<or> buffered en s es)"
  "buffered en s (xs @ ys) = (buffered en s xs \<or> buffered en s ys)"
  by (auto simp: buffered_def)





























text \<open>A request body over the threshold, and what follows when no callback clears the flag.\<close>

lemma never_cleared_simps [simp]:
  "never_cleared []"
  "never_cleared (xs @ ys) \<longleftrightarrow> never_cleared xs \<and> never_cleared ys"
  by (auto simp: never_cleared_def)






















subsection \<open>Order of the body sources in a reply\<close>

lemma body_sent_headers:
  "body_sent (concat (map (\<lambda>(key, value). map (HeaderAdd key) value) hs)) = []"
  by (induction hs) (auto simp: body_sent_def)

lemma body_sent_copy: "body_sent (copy r) = content r"
  by (simp add: copy_def)

lemma body_sent_calls: "\<forall>e\<in>set tr. is_call h e \<Longrightarrow> body_sent tr = []"
proof (induction tr)
  case Nil
  show ?case by simp
next
  case (Cons e es)
  then have "is_call h e" by simp
  then have "written e = []" by (cases e) auto
  with Cons show ?case by simp
qed

lemma reply_accepted:
  assumes "100 \<le> StatusCode r" and "StatusCode r \<le> 999"
  shows "reply r b =
           (concat (map (\<lambda>(key, value). map (HeaderAdd key) value) (ResHeader r))
            @ (if close r then [HeaderAdd ''Connection'' ''close''] else [])
            @ [WriteHeader (StatusCode r)]
            @ (case b of None \<Rightarrow> [] | Some rd \<Rightarrow> copy rd)
            @ (case BodyReader r of None \<Rightarrow> [] | Some rd \<Rightarrow> copy rd)
            @ (case ResBody r of None \<Rightarrow> [] | Some bs \<Rightarrow> if bs = [] then [] else [Write bs]),
            Returned)"
  using assms by (auto simp: reply_def checkWriteHeaderCode_def Let_def split: option.splits)

lemma reply_refused:
  assumes "StatusCode r < 100 \<or> 999 < StatusCode r"
  shows "reply r b =
           (concat (map (\<lambda>(key, value). map (HeaderAdd key) value) (ResHeader r))
            @ (if close r then [HeaderAdd ''Connection'' ''close''] else [])
            @ [WriteHeader (StatusCode r)],
            Panicked)"
  using assms by (auto simp: reply_def checkWriteHeaderCode_def Let_def)

text \<open>
  C2, as the code has it: when \<open>res.WriteHeader\<close> accepts the status code (100 to 999),
  the reply hands to the writer first the reader passed to \<open>reply\<close>, then
  \<open>response.BodyReader\<close>, then the buffered \<open>response.Body\<close>; a source that is nil
  contributes nothing. With any other status code \<open>res.WriteHeader\<close> panics and no
  source is written. At line 362 the reader passed to \<open>reply\<close> is the one the
  \<open>StreamResponseModifier\<close> chain returns.
\<close>

theorem reply_body_order:
  "(100 \<le> StatusCode response \<and> StatusCode response \<le> 999 \<longrightarrow>
      snd (reply response body) = Returned \<and>
      body_sent (fst (reply response body))
        = bytes_of body @ bytes_of (BodyReader response)
          @ (case ResBody response of None \<Rightarrow> [] | Some b \<Rightarrow> b)) \<and>
   (StatusCode response < 100 \<or> 999 < StatusCode response \<longrightarrow>
      snd (reply response body) = Panicked \<and> body_sent (fst (reply response body)) = []) \<and>
   (\<forall>tr f' b' r.
      fire_modifiers HStreamResponseModifier StreamResponseModifier
        (enumerate 0 (Addons p)) f resBody = (tr, Done (f', b')) \<longrightarrow>
      Response f' = Some r \<longrightarrow> 100 \<le> StatusCode r \<and> StatusCode r \<le> 999 \<longrightarrow>
      body_sent (fst (modify_and_reply p f resBody))
        = bytes_of b' @ bytes_of (BodyReader r)
          @ (case ResBody r of None \<Rightarrow> [] | Some b \<Rightarrow> b))"
proof (intro conjI impI allI)
  assume "100 \<le> StatusCode response \<and> StatusCode response \<le> 999"
  then have r: "reply response body = 
           (concat (map (\<lambda>(key, value). map (HeaderAdd key) value) (ResHeader response))
            @ (if close response then [HeaderAdd ''Connection'' ''close''] else [])
            @ [WriteHeader (StatusCode response)]
            @ (case body of None \<Rightarrow> [] | Some rd \<Rightarrow> copy rd)
            @ (case BodyReader response of None \<Rightarrow> [] | Some rd \<Rightarrow> copy rd)
            @ (case ResBody response of None \<Rightarrow> [] | Some bs \<Rightarrow> if bs = [] then [] else [Write bs]),
            Returned)"
    by (intro reply_accepted) auto
  show "snd (reply response body) = Returned"
    by (simp add: r)
  show "body_sent (fst (reply response body))
        = bytes_of body @ bytes_of (BodyReader response)
          @ (case ResBody response of None \<Rightarrow> [] | Some b \<Rightarrow> b)"
    by (simp add: r body_sent_headers body_sent_copy bytes_of_def split: option.splits)
next
  assume a: "StatusCode response < 100 \<or> 999 < StatusCode response"
  show "snd (reply response body) = Panicked"
    by (simp add: reply_refused[OF a])
  show "body_sent (fst (reply response body)) = []"
    by (simp add: reply_refused[OF a] body_sent_headers)
next
  fix tr and f' :: flow and b' r
  assume m: "fire_modifiers HStreamResponseModifier StreamResponseModifier
        (enumerate 0 (Addons p)) f resBody = (tr, Done (f', b'))"
    and r: "Response f' = Some r" and ok: "100 \<le> StatusCode r \<and> StatusCode r \<le> 999"
  from ok have rep: "reply r b' =
           (concat (map (\<lambda>(key, value). map (HeaderAdd key) value) (ResHeader r))
            @ (if close r then [HeaderAdd ''Connection'' ''close''] else [])
            @ [WriteHeader (StatusCode r)]
            @ (case b' of None \<Rightarrow> [] | Some rd \<Rightarrow> copy rd)
            @ (case BodyReader r of None \<Rightarrow> [] | Some rd \<Rightarrow> copy rd)
            @ (case ResBody r of None \<Rightarrow> [] | Some bs \<Rightarrow> if bs = [] then [] else [Write bs]),
            Returned)"
    by (intro reply_accepted) auto
  from fire_modifiers_events[OF m] have "body_sent tr = []"
    by (rule body_sent_calls)
  with m r show "body_sent (fst (modify_and_reply p f resBody))
        = bytes_of b' @ bytes_of (BodyReader r)
          @ (case ResBody r of None \<Rightarrow> [] | Some b \<Rightarrow> b)"
    by (simp add: modify_and_reply_def send_reply_def rep body_sent_headers body_sent_copy
          bytes_of_def split: option.splits)
qed

theorem reply_body_order_witness:
  "reply sample_response (Some (bytes_reader ''A''))
     = ([HeaderAdd ''X'' ''1'', WriteHeader 200, Write ''A'', Write ''B'', Write ''C''], Returned) \<and>
   body_sent (fst (reply sample_response (Some (bytes_reader ''A'')))) = ''ABC'' \<and>
   snd (reply unset_status (Some (bytes_reader ''A''))) = Panicked \<and>
   body_sent (fst (reply unset_status (Some (bytes_reader ''A'')))) = [] \<and>
   body_sent (fst (modify_and_reply (sample_proxy [BaseAddon])
       ((first_flow sample_cc (sample_request ''GET'' []))\<lparr>Response := Some sample_response\<rparr>)
       (Some (bytes_reader ''A'')))) = ''ABC''"
proof -
  let ?f = "(first_flow sample_cc (sample_request ''GET'' []))\<lparr>Response := Some sample_response\<rparr>"
  have e: "reply sample_response (Some (bytes_reader ''A''))
     = ([HeaderAdd ''X'' ''1'', WriteHeader 200, Write ''A'', Write ''B'', Write ''C''], Returned)"
    by (simp add: reply_def checkWriteHeaderCode_def copy_def sample_response_def bytes_reader_def)
  have m: "fire_modifiers HStreamResponseModifier StreamResponseModifier
        (enumerate 0 (Addons (sample_proxy [BaseAddon]))) ?f (Some (bytes_reader ''A''))
          = ([Call HStreamResponseModifier 0 ?f (Some ?f)], Done (?f, Some (bytes_reader ''A'')))"
    by (simp add: sample_defs enumerate_eq_zip)
  have r: "Response ?f = Some sample_response"
    by simp
  from reply_body_order [of sample_response "Some (bytes_reader ''A'')" "sample_proxy [BaseAddon]"
      ?f "Some (bytes_reader ''A'')"]
    reply_body_order [of unset_status "Some (bytes_reader ''A'')" "sample_proxy [BaseAddon]"
      ?f "Some (bytes_reader ''A'')"] e m r
  show ?thesis
    by (simp add: sample_response_def unset_status_def bytes_reader_def bytes_of_def)
qed

text \<open>
  The order stated in the specification (\<open>BodyReader\<close> before the modifier chain's reader)
  is not the order of the code: with the three sources \<open>B\<close>, \<open>A\<close>, \<open>C\<close> the client
  receives \<open>ABC\<close>.
\<close>

theorem reply_body_order_counterexample:
  "body_sent (fst (reply sample_response (Some (bytes_reader ''A''))))
     \<noteq> bytes_of (BodyReader sample_response) @ bytes_of (Some (bytes_reader ''A''))
         @ (case ResBody sample_response of None \<Rightarrow> [] | Some b \<Rightarrow> b)"
  by (simp add: reply_def checkWriteHeaderCode_def sample_response_def bytes_reader_def copy_def
        bytes_of_def)

subsection \<open>Short-circuit in the \<open>Requestheaders\<close> hooks\<close>

lemma fire_until_response_short:
  assumes "fire_until_response h sel as f = (tr, res)"
      and "Call k i g (Some f') \<in> set tr" and "Response f' \<noteq> None"
  shows "res = ShortCircuit f' \<and> (\<exists>pre. tr = pre @ [Call k i g (Some f')]
           \<and> (\<forall>e\<in>set pre. is_call h e))"
  using assms
proof (induction as arbitrary: f tr res)
  case Nil
  then show ?case by simp
next
  case (Cons a as)
  obtain j x where a: "a = (j, x)" by (cases a)
  show ?case
  proof (cases "sel x f")
    case None
    with Cons.prems a show ?thesis by auto
  next
    case (Some f1)
    show ?thesis
    proof (cases "Response f1 = None")
      case False
      with Cons.prems a Some show ?thesis by auto
    next
      case True
      obtain tr' res' where r: "fire_until_response h sel as f1 = (tr', res')"
        by (cases "fire_until_response h sel as f1")
      with Cons.prems a Some True have tr: "tr = Call h j f (Some f1) # tr'" and res: "res = res'"
        by auto
      with Cons.prems(2,3) True have "Call k i g (Some f') \<in> set tr'"
        by auto
      from Cons.IH[OF r this Cons.prems(3)] obtain pre where
        "res' = ShortCircuit f'" "tr' = pre @ [Call k i g (Some f')]" "\<forall>e\<in>set pre. is_call h e"
        by blast
      with tr res show ?thesis
        by (intro conjI exI[of _ "Call h j f (Some f1) # pre"]) auto
    qed
  qed
qed

text \<open>What \<open>reply(f.Response, nil)\<close> does with the writer, and how the handler is left.\<close>

lemma short_circuit_run:
  assumes "hMethod req \<noteq> ''CONNECT''" and "IsAbs (hURL req)" and "Host (hURL req) \<noteq> []"
      and "Call HRequestheaders i g (Some f) \<in> set (fst (ServeHTTP en p cc req))"
      and "Response f = Some r"
  shows "\<exists>pre. ServeHTTP en p cc req
            = (pre @ [Call HRequestheaders i g (Some f)] @ fst (reply r None)
                 @ (if 100 \<le> StatusCode r \<and> StatusCode r \<le> 999 then [Finish f]
                    else [Finish f, LogRecovered]), Returned)
          \<and> (\<forall>e\<in>set pre. is_call HRequestheaders e)"
proof -
  let ?ev = "Call HRequestheaders i g (Some f)"
  obtain tr x where fp: "forward_pipeline en p cc req = (tr, x)"
    by (cases "forward_pipeline en p cc req")
  have serve: "ServeHTTP en p cc req
     = (case x of Return f' \<Rightarrow> (tr @ [Finish f'], Returned)
        | Panicking f' \<Rightarrow> (tr @ [Finish f', LogRecovered], Returned))"
    using assms(1-3) fp by (simp add: ServeHTTP_def split: exit.splits)
  with assms(4) have in_tr: "?ev \<in> set tr"
    by (cases x) auto
  show ?thesis
  proof (cases rule: forward_pipeline_cases[where en=en and p=p and cc=cc and req=req])
    case (Panic tr1 f')
    with fp in_tr assms(5) fire_until_response_short[OF Panic(1), of HRequestheaders i g f]
    show ?thesis by auto
  next
    case (Short tr1 f')
    from send_reply_phase[of f' None] have "?ev \<notin> set (fst (send_reply f' None))"
      by auto
    with Short(2) fp in_tr have "?ev \<in> set tr1"
      by (auto simp: after_def)
    from fire_until_response_short[OF Short(1) this] assms(5) obtain pre where
      pre: "f' = f" "tr1 = pre @ [?ev]" "\<forall>e\<in>set pre. is_call HRequestheaders e"
      by auto
    from pre(1) assms(5) have "send_reply f' None
        = (fst (reply r None),
           if 100 \<le> StatusCode r \<and> StatusCode r \<le> 999 then Return f else Panicking f)"
      by (auto simp: send_reply_def reply_def checkWriteHeaderCode_def Let_def)
    with Short(2) fp pre serve show ?thesis
      by (auto simp: after_def)
  next
    case (Proceed tr1 f')
    from read_request_body_phase[of en p req "Host (hURL req)" "Scheme (hURL req)" f']
    have "?ev \<notin> set (fst (read_request_body en p req (Host (hURL req)) (Scheme (hURL req)) f'))"
      by (auto dest: early_phase)
    with Proceed(2) fp in_tr have "?ev \<in> set tr1"
      by (auto simp: after_def)
    from fire_until_response_short[OF Proceed(1) this] assms(5) show ?thesis
      by auto
  qed
qed

lemma writer_only:
  assumes "\<forall>e\<in>set tr. phase e = 7"
  shows "Do c g q \<notin> set tr" "InitHttpServerConn \<notin> set tr" "NewRequest m u b \<notin> set tr"
    "ReaderToBuffer s rd n \<notin> set tr" "fired h tr = []"
proof -
  show "Do c g q \<notin> set tr" "InitHttpServerConn \<notin> set tr" "NewRequest m u b \<notin> set tr"
    using assms by auto
  show "ReaderToBuffer s rd n \<notin> set tr"
    using assms by (auto split: site.splits)
  have "\<forall>e\<in>set tr. \<not> is_call h e"
    using assms by (auto dest!: is_call_phase split: hook.splits)
  then show "fired h tr = []"
    by (rule fired_none)
qed

lemma calls_only:
  assumes "\<forall>e\<in>set tr. is_call h e"
  shows "Do c g q \<notin> set tr" "InitHttpServerConn \<notin> set tr" "NewRequest m u b \<notin> set tr"
    "ReaderToBuffer s rd n \<notin> set tr"
  using assms by auto

text \<open>
  C3, as the code has it: in the forward pipeline, when a \<open>Requestheaders\<close> callback
  returns with \<open>f.Response\<close> set, the run consists of the \<open>Requestheaders\<close> calls up to
  and including that one and of the reply with that response: its headers are added to the
  writer, with \<open>Connection: close\<close> if the response asks for it, and its status code is
  passed to \<open>res.WriteHeader\<close>. When the status code is one that \<open>res.WriteHeader\<close>
  accepts (100 to 999), the bytes of \<open>BodyReader\<close> and the buffered body are written and
  the run ends with \<open>f.finish()\<close>; with any other status code \<open>res.WriteHeader\<close> panics,
  no body is written, and the run ends with \<open>f.finish()\<close> and the recovery. In both cases
  no body is read, no request is built or sent, no connection to the origin is prepared,
  and no hook other than \<open>Requestheaders\<close> is called.
\<close>

theorem request_headers_short_circuit:
  assumes "hMethod req \<noteq> ''CONNECT''" and "IsAbs (hURL req)" and "Host (hURL req) \<noteq> []"
      and "Call HRequestheaders i g (Some f) \<in> set (fst (ServeHTTP en p cc req))"
      and "Response f = Some r"
  shows "(\<exists>pre. (\<forall>e\<in>set pre. is_call HRequestheaders e) \<and>
            ServeHTTP en p cc req
              = (pre @ [Call HRequestheaders i g (Some f)]
                 @ concat (map (\<lambda>(key, value). map (HeaderAdd key) value) (ResHeader r))
                 @ (if close r then [HeaderAdd ''Connection'' ''close''] else [])
                 @ [WriteHeader (StatusCode r)]
                 @ (if 100 \<le> StatusCode r \<and> StatusCode r \<le> 999 then
                      (case BodyReader r of
                         None \<Rightarrow> []
                       | Some rd \<Rightarrow> (if content rd = [] then [] else [Write (content rd)])
                                   @ (if read_error rd then [LogCopyError] else []))
                      @ (case ResBody r of
                           None \<Rightarrow> []
                         | Some b \<Rightarrow> if b = [] then [] else [Write b])
                      @ [Finish f]
                    else [Finish f, LogRecovered]),
                 Returned)) \<and>
         (\<forall>c g' q. Do c g' q \<notin> set (fst (ServeHTTP en p cc req))) \<and>
         InitHttpServerConn \<notin> set (fst (ServeHTTP en p cc req)) \<and>
         (\<forall>m u b. NewRequest m u b \<notin> set (fst (ServeHTTP en p cc req))) \<and>
         (\<forall>s rd n. ReaderToBuffer s rd n \<notin> set (fst (ServeHTTP en p cc req))) \<and>
         (\<forall>h. h \<noteq> HRequestheaders \<longrightarrow> fired h (fst (ServeHTTP en p cc req)) = [])"
proof -
  let ?tail = "if 100 \<le> StatusCode r \<and> StatusCode r \<le> 999 then [Finish f]
               else [Finish f, LogRecovered]"
  from short_circuit_run[OF assms] obtain pre where
    run: "ServeHTTP en p cc req
            = (pre @ [Call HRequestheaders i g (Some f)] @ fst (reply r None) @ ?tail, Returned)"
    and pre: "\<forall>e\<in>set pre. is_call HRequestheaders e"
    by blast
  note w = writer_only[OF reply_events[of r None]]
  note c = calls_only[OF pre]
  have a: "\<forall>c g' q. Do c g' q \<notin> set (fst (ServeHTTP en p cc req))"
    using c(1) w(1) by (simp add: run)
  have b: "InitHttpServerConn \<notin> set (fst (ServeHTTP en p cc req))"
    using c(2) w(2) by (simp add: run)
  have d: "\<forall>m u b. NewRequest m u b \<notin> set (fst (ServeHTTP en p cc req))"
    using c(3) w(3) by (simp add: run)
  have e: "\<forall>s rd n. ReaderToBuffer s rd n \<notin> set (fst (ServeHTTP en p cc req))"
    using c(4) w(4) by (simp add: run)
  have h: "\<forall>h. h \<noteq> HRequestheaders \<longrightarrow> fired h (fst (ServeHTTP en p cc req)) = []"
    using other_hook_quiet[OF pre] by (simp add: run w(5))
  have shape: "ServeHTTP en p cc req
              = (pre @ [Call HRequestheaders i g (Some f)]
                 @ concat (map (\<lambda>(key, value). map (HeaderAdd key) value) (ResHeader r))
                 @ (if close r then [HeaderAdd ''Connection'' ''close''] else [])
                 @ [WriteHeader (StatusCode r)]
                 @ (if 100 \<le> StatusCode r \<and> StatusCode r \<le> 999 then
                      (case BodyReader r of
                         None \<Rightarrow> []
                       | Some rd \<Rightarrow> (if content rd = [] then [] else [Write (content rd)])
                                   @ (if read_error rd then [LogCopyError] else []))
                      @ (case ResBody r of
                           None \<Rightarrow> []
                         | Some b \<Rightarrow> if b = [] then [] else [Write b])
                      @ [Finish f]
                    else [Finish f, LogRecovered]),
                 Returned)"
  proof (cases "100 \<le> StatusCode r \<and> StatusCode r \<le> 999")
    case True
    then have "100 \<le> StatusCode r" "StatusCode r \<le> 999" by auto
    from reply_accepted[OF this, of None] True show ?thesis
      by (simp add: run copy_def split: option.splits)
  next
    case False
    then have "StatusCode r < 100 \<or> 999 < StatusCode r" by auto
    from reply_refused[OF this, of None] show ?thesis
      unfolding run if_not_P[OF False] by simp
  qed
  from shape pre a b d e h show ?thesis by blast
qed

theorem request_headers_short_circuit_witness:
  "ServeHTTP (sample_env []) (sample_proxy [canned_addon]) sample_cc (sample_request ''GET'' [])
     = ([Call HRequestheaders 0 (first_flow sample_cc (sample_request ''GET'' []))
           (Some ((first_flow sample_cc (sample_request ''GET'' []))\<lparr>Response := Some canned\<rparr>)),
         HeaderAdd ''Server'' ''teapot'', HeaderAdd ''Connection'' ''close'',
         WriteHeader 418, Write ''short'', Write ''stout'',
         Finish ((first_flow sample_cc (sample_request ''GET'' []))\<lparr>Response := Some canned\<rparr>)],
        Returned) \<and>
   fired HRequest (fst (ServeHTTP (sample_env []) (sample_proxy [canned_addon]) sample_cc
                          (sample_request ''GET'' []))) = [] \<and>
   fired HResponse (fst (ServeHTTP (sample_env []) (sample_proxy [canned_addon]) sample_cc
                          (sample_request ''GET'' []))) = []"
proof -
  let ?f0 = "first_flow sample_cc (sample_request ''GET'' [])"
  let ?run = "ServeHTTP (sample_env []) (sample_proxy [canned_addon]) sample_cc
                (sample_request ''GET'' [])"
  have call: "Call HRequestheaders 0 ?f0 (Some (?f0\<lparr>Response := Some canned\<rparr>)) \<in> set (fst ?run)"
    by (simp add: pipeline_defs sample_defs canned_addon_def first_flow_def)
  have resp: "Response (?f0\<lparr>Response := Some canned\<rparr>) = Some canned"
    by simp
  note t = request_headers_short_circuit [OF sample_forward call resp]
  from t obtain pre where
    run: "?run = (pre @ [Call HRequestheaders 0 ?f0 (Some (?f0\<lparr>Response := Some canned\<rparr>)),
                 HeaderAdd ''Server'' ''teapot'', HeaderAdd ''Connection'' ''close'',
                 WriteHeader 418, Write ''short'', Write ''stout'',
                 Finish (?f0\<lparr>Response := Some canned\<rparr>)], Returned)"
    by (auto simp: canned_def bytes_reader_def)
  have "hd (fst ?run) = Call HRequestheaders 0 ?f0 (Some (?f0\<lparr>Response := Some canned\<rparr>))"
    by (simp add: pipeline_defs sample_defs canned_addon_def first_flow_def)
  moreover have "length (fst ?run) = 7"
    by (simp add: pipeline_defs sample_defs canned_addon_def canned_def)
  ultimately have "pre = []"
    using run by (cases pre) auto
  with run t show ?thesis
    by simp
qed

text \<open>
  A response whose status code \<open>res.WriteHeader\<close> refuses is not sent: with status code 0
  the header is added, \<open>res.WriteHeader(0)\<close> panics, the body is never written, and the
  handler is left through the recovery.
\<close>

theorem request_headers_short_circuit_counterexample:
  "ServeHTTP (sample_env []) (sample_proxy [unset_status_addon]) sample_cc
      (sample_request ''GET'' [])
     = ([Call HRequestheaders 0 (first_flow sample_cc (sample_request ''GET'' []))
           (Some ((first_flow sample_cc (sample_request ''GET'' []))
                    \<lparr>Response := Some unset_status\<rparr>)),
         HeaderAdd ''X'' ''1'', WriteHeader 0,
         Finish ((first_flow sample_cc (sample_request ''GET'' []))
                    \<lparr>Response := Some unset_status\<rparr>),
         LogRecovered],
        Returned) \<and>
   ResBody unset_status = Some ''body''"
  by (simp add: pipeline_defs sample_defs unset_status_addon_def unset_status_def first_flow_def)

subsection \<open>The stream flag is never cleared by the proxy's own code\<close>

lemma own_steps_append:
  "own_steps cur (xs @ ys) = own_steps cur xs @ own_steps (last_seen cur xs) ys"
  by (induction xs arbitrary: cur) (auto split: option.splits)

lemma last_seen_append [simp]: "last_seen cur (xs @ ys) = last_seen (last_seen cur xs) ys"
  by (induction xs arbitrary: cur) (auto split: option.splits)

lemma own_ok_Nil [simp]: "own_ok cur []"
  by (simp add: own_ok_def)

lemma own_ok_append [simp]:
  "own_ok cur (xs @ ys) \<longleftrightarrow> own_ok cur xs \<and> own_ok (last_seen cur xs) ys"
  by (auto simp: own_ok_def own_steps_append)

lemma own_ok_Cons:
  "own_ok cur (e # es) \<longleftrightarrow>
     (case seen e of None \<Rightarrow> own_ok cur es | Some (f, f') \<Rightarrow> keeps_flag cur f \<and> own_ok (Some f') es)"
  by (auto simp: own_ok_def keeps_flag_def split: option.splits)

lemma keeps_flag_refl [simp]: "keeps_flag (Some f) f"
  by (simp add: keeps_flag_def)

lemma keeps_flag_None [simp]: "keeps_flag None f"
  by (simp add: keeps_flag_def)

lemma keeps_flag_update [simp]:
  "keeps_flag cur (f\<lparr>Response := x\<rparr>) = keeps_flag cur f"
  "keeps_flag cur (f\<lparr>Request := y\<rparr>) = keeps_flag cur f"
  "keeps_flag cur (f\<lparr>ConnContext := z\<rparr>) = keeps_flag cur f"
  "keeps_flag cur (f\<lparr>Stream := True\<rparr>)"
  by (simp_all add: keeps_flag_def split: option.splits)

lemma keeps_flag_receive_response [simp]: "keeps_flag cur (receive_response f r) = keeps_flag cur f"
  by (simp add: receive_response_def Let_def)

lemma unseen:
  "\<forall>e\<in>set tr. seen e = None \<Longrightarrow> own_ok cur tr \<and> last_seen cur tr = cur"
  by (induction tr) (auto simp: own_ok_Cons)

lemma phase7_unseen: "phase e = 7 \<Longrightarrow> seen e = None"
  by (cases e) (auto split: hook.splits site.splits)

lemma reply_unseen: "\<forall>e\<in>set (fst (reply r b)). seen e = None"
  using reply_events[of r b] by (auto dest: phase7_unseen)

lemma dial_unseen: "\<forall>e\<in>set (fst (dial_tunnel en p req i)). seen e = None"
  using dial_tunnel_events[of en p req i] by auto

lemma access_unseen: "\<forall>e\<in>set (fst (access_all as req)). seen e = None"
  using access_all_events[OF surjective_pairing, of as req] by auto

text \<open>The loops hand the flow a callback leaves to the next callback unchanged.\<close>

lemma fire_all_kept:
  "fire_all h sel as f = (tr, res) \<Longrightarrow> keeps_flag cur f \<Longrightarrow>
   own_ok cur tr \<and> keeps_flag (last_seen cur tr) (case res of Done f' \<Rightarrow> f' | PanicsIn f' \<Rightarrow> f')"
proof (induction as arbitrary: f tr res cur)
  case Nil
  then show ?case by auto
next
  case (Cons a as)
  obtain i x where a: "a = (i, x)" by (cases a)
  show ?case
  proof (cases "sel x f")
    case None
    with Cons.prems a show ?thesis by (auto simp: own_ok_Cons)
  next
    case (Some f1)
    obtain tr' res' where r: "fire_all h sel as f1 = (tr', res')"
      by (cases "fire_all h sel as f1")
    from Cons.IH[OF r, of "Some f1"] Cons.prems a Some r show ?thesis
      by (auto simp: own_ok_Cons)
  qed
qed

lemma fire_modifiers_kept:
  "fire_modifiers h sel as f b = (tr, res) \<Longrightarrow> keeps_flag cur f \<Longrightarrow>
   own_ok cur tr \<and> keeps_flag (last_seen cur tr) (case res of Done (f', b') \<Rightarrow> f' | PanicsIn f' \<Rightarrow> f')"
proof (induction as arbitrary: f b tr res cur)
  case Nil
  then show ?case by auto
next
  case (Cons a as)
  obtain i x where a: "a = (i, x)" by (cases a)
  show ?case
  proof (cases "sel x f b")
    case None
    with Cons.prems a show ?thesis by (auto simp: own_ok_Cons)
  next
    case (Some y)
    obtain f1 b1 where y: "y = (f1, b1)" by (cases y)
    obtain tr' res' where r: "fire_modifiers h sel as f1 b1 = (tr', res')"
      by (cases "fire_modifiers h sel as f1 b1")
    from Cons.IH[OF r, of "Some f1"] Cons.prems a Some y r show ?thesis
      by (auto simp: own_ok_Cons)
  qed
qed

lemma fire_until_response_kept:
  "fire_until_response h sel as f = (tr, res) \<Longrightarrow> keeps_flag cur f \<Longrightarrow>
   own_ok cur tr \<and> keeps_flag (last_seen cur tr) (checked_flow res)"
proof (induction as arbitrary: f tr res cur)
  case Nil
  then show ?case by auto
next
  case (Cons a as)
  obtain i x where a: "a = (i, x)" by (cases a)
  show ?case
  proof (cases "sel x f")
    case None
    with Cons.prems a show ?thesis by (auto simp: own_ok_Cons)
  next
    case (Some f1)
    obtain tr' res' where r: "fire_until_response h sel as f1 = (tr', res')"
      by (cases "fire_until_response h sel as f1")
    from Cons.IH[OF r, of "Some f1"] Cons.prems a Some r show ?thesis
      by (auto simp: own_ok_Cons split: if_splits)
  qed
qed

lemma fire_Responseheaders_kept:
  "fire_Responseheaders as f = (tr, res) \<Longrightarrow> keeps_flag cur f \<Longrightarrow>
   own_ok cur tr \<and> keeps_flag (last_seen cur tr) (checked_flow res)"
proof (induction as arbitrary: f tr res cur)
  case Nil
  then show ?case by auto
next
  case (Cons a as)
  obtain i x where a: "a = (i, x)" by (cases a)
  show ?case
  proof (cases "Responseheaders x f")
    case None
    with Cons.prems a show ?thesis by (auto simp: own_ok_Cons)
  next
    case (Some f1)
    obtain tr' res' where r: "fire_Responseheaders as f1 = (tr', res')"
      by (cases "fire_Responseheaders as f1")
    from Cons.IH[OF r, of "Some f1"] Cons.prems a Some r show ?thesis
      by (auto simp: own_ok_Cons split: if_splits option.splits)
  qed
qed

lemma kept_after: "own_ok cur tr \<Longrightarrow> kept (last_seen cur tr) r \<Longrightarrow> kept cur (after tr r)"
  by (simp add: kept_def after_def)

lemma kept_unseen: "\<forall>e\<in>set tr. seen e = None \<Longrightarrow> keeps_flag cur (exit_flow x) \<Longrightarrow> kept cur (tr, x)"
  using unseen[of tr cur] by (simp add: kept_def)

lemma kept_BodyClose: "kept cur r \<Longrightarrow> kept cur (fst r @ [BodyClose], snd r)"
  by (simp add: kept_def own_ok_Cons)

lemma send_reply_kept: "keeps_flag cur f \<Longrightarrow> kept cur (send_reply f b)"
  by (cases rule: send_reply_cases[where f=f and b=b])
     (auto intro!: kept_unseen simp: reply_unseen)

lemma modify_and_reply_kept:
  assumes "keeps_flag cur f"
  shows "kept cur (modify_and_reply p f b)"
proof (cases rule: modify_and_reply_cases[where p=p and f=f and b=b])
  case (Panic tr f')
  from fire_modifiers_kept[OF Panic(1) assms] Panic(2) show ?thesis
    by (simp add: kept_def)
next
  case (Reply tr f' b')
  from fire_modifiers_kept[OF Reply(1) assms] Reply(2) show ?thesis
    by (auto intro!: kept_after send_reply_kept)
qed

lemma read_response_body_kept:
  assumes "keeps_flag cur f"
  shows "kept cur (read_response_body en p f b)"
proof (cases rule: read_response_body_cases[where en=en and p=p and f=f and b=b])
  case Streaming
  with modify_and_reply_kept[OF assms] show ?thesis by simp
next
  case (Error err)
  with assms show ?thesis by (auto intro!: kept_unseen)
next
  case (TooLarge r)
  then show ?thesis
    by (auto intro!: kept_after modify_and_reply_kept simp: own_ok_Cons)
next
  case (NilResponse buf r)
  with assms show ?thesis by (auto intro!: kept_unseen)
next
  case (HookPanic buf r resp tr f')
  from fire_all_kept[OF HookPanic(4), of cur] assms HookPanic(5) show ?thesis
    by (simp add: kept_def own_ok_Cons)
next
  case (Buffered buf r resp tr f')
  from fire_all_kept[OF Buffered(4), of cur] assms Buffered(5) show ?thesis
    by (auto intro!: kept_after modify_and_reply_kept simp: own_ok_Cons)
qed

lemma handle_origin_response_kept:
  assumes "keeps_flag cur f"
  shows "kept cur (handle_origin_response en p f r)"
proof (cases rule: handle_origin_response_cases[where en=en and p=p and f=f and r=r])
  case (Panic tr f')
  from fire_Responseheaders_kept[OF Panic(1), of cur] assms Panic(2) show ?thesis
    by (simp add: kept_def own_ok_Cons)
next
  case (Short tr f')
  from fire_Responseheaders_kept[OF Short(1), of cur] assms
  have a: "own_ok cur tr" "keeps_flag (last_seen cur tr) f'" by auto
  from kept_after[OF a(1) send_reply_kept[OF a(2)], THEN kept_BodyClose] Short(2)
  show ?thesis by (simp add: after_def)
next
  case (Proceed tr f')
  from fire_Responseheaders_kept[OF Proceed(1), of cur] assms
  have a: "own_ok cur tr" "keeps_flag (last_seen cur tr) f'" by auto
  from kept_after[OF a(1) read_response_body_kept[OF a(2)], THEN kept_BodyClose] Proceed(2)
  show ?thesis by (simp add: after_def)
qed

lemma forward_request_kept:
  assumes "keeps_flag cur f"
  shows "kept cur (forward_request en p h sc f b)"
proof (cases rule: forward_request_cases[where en=en and p=p and f=f and b=b and h=h and sc=sc])
  case (Panic tr f')
  from fire_modifiers_kept[OF Panic(1) assms] Panic(2) show ?thesis
    by (simp add: kept_def)
next
  case (BuildError tr f' b' err)
  from fire_modifiers_kept[OF BuildError(1) assms] BuildError(3) show ?thesis
    by (simp add: kept_def own_ok_Cons)
next
  case (SendError tr f' b' q0 err)
  from fire_modifiers_kept[OF SendError(1) assms] SendError(4) show ?thesis
    by (simp add: kept_def own_ok_Cons)
next
  case (Sent tr f' b' q0 r)
  from fire_modifiers_kept[OF Sent(1) assms]
  have a: "own_ok cur tr" "keeps_flag (last_seen cur tr) f'" by auto
  from handle_origin_response_kept[of "Some f'" f' en p r]
  have "kept (Some f') (handle_origin_response en p f' r)" by simp
  with a Sent(4) show ?thesis
    by (simp add: kept_def own_ok_Cons)
qed

lemma read_request_body_kept:
  assumes "keeps_flag cur f"
  shows "kept cur (read_request_body en p req h sc f)"
proof (cases rule: read_request_body_cases[where en=en and p=p and f=f and req=req and h=h and sc=sc])
  case Streaming
  with forward_request_kept[OF assms] show ?thesis by simp
next
  case (Error err)
  with assms show ?thesis by (auto intro!: kept_unseen)
next
  case (TooLarge r)
  then show ?thesis
    by (auto intro!: kept_after forward_request_kept simp: own_ok_Cons)
next
  case (HookPanic buf r tr f')
  from fire_until_response_kept[OF HookPanic(3), of cur] assms HookPanic(4) show ?thesis
    by (simp add: kept_def own_ok_Cons)
next
  case (Short buf r tr f')
  from fire_until_response_kept[OF Short(3), of cur] assms Short(4) show ?thesis
    by (auto intro!: kept_after send_reply_kept simp: own_ok_Cons)
next
  case (Buffered buf r tr f')
  from fire_until_response_kept[OF Buffered(3), of cur] assms Buffered(4) show ?thesis
    by (auto intro!: kept_after forward_request_kept simp: own_ok_Cons)
qed

lemma forward_pipeline_kept: "kept None (forward_pipeline en p cc req)"
proof (cases rule: forward_pipeline_cases[where en=en and p=p and cc=cc and req=req])
  case (Panic tr f')
  from fire_until_response_kept[OF Panic(1), of None] Panic(2) show ?thesis
    by (simp add: kept_def)
next
  case (Short tr f')
  from fire_until_response_kept[OF Short(1), of None] Short(2) show ?thesis
    by (auto intro!: kept_after send_reply_kept)
next
  case (Proceed tr f')
  from fire_until_response_kept[OF Proceed(1), of None] Proceed(2) show ?thesis
    by (auto intro!: kept_after read_request_body_kept)
qed

lemma handleConnect_own_ok: "own_ok None (fst (handleConnect en p cc req))"
proof -
  let ?d = "fst (dial_tunnel en p req (intercepts p req))"
  have d: "\<And>cur. own_ok cur ?d" "\<And>cur. last_seen cur ?d = cur"
    using unseen[OF dial_unseen[of en p req "intercepts p req"]] by auto
  show ?thesis
  proof (cases rule: handleConnect_cases[where en=en and p=p and cc=cc and req=req])
    case (HeadersPanic tr f')
    from fire_all_kept[OF HeadersPanic(1), of None] HeadersPanic(2) show ?thesis
      by (simp add: own_ok_Cons)
  next
    case (DialError tr f1 err)
    from fire_all_kept[OF DialError(1), of None] DialError(3) show ?thesis
      by (simp add: own_ok_Cons d)
  next
    case (HijackError tr f1 err)
    from fire_all_kept[OF HijackError(1), of None] HijackError(4) show ?thesis
      by (simp add: own_ok_Cons d)
  next
    case (WriteError tr f1 err)
    from fire_all_kept[OF WriteError(1), of None] WriteError(5) show ?thesis
      by (simp add: own_ok_Cons d)
  next
    case (ResponseheadersPanic tr f1 tr2 f')
    from fire_all_kept[OF ResponseheadersPanic(1), of None]
    have a: "own_ok None tr" "keeps_flag (last_seen None tr) f1" by auto
    from fire_all_kept[OF ResponseheadersPanic(5), of "last_seen None tr"] a(2)
    have b: "own_ok (last_seen None tr) tr2" "keeps_flag (last_seen (last_seen None tr) tr2) f'" by auto
    from a b ResponseheadersPanic(6) show ?thesis
      by (simp add: own_ok_Cons d)
  next
    case (ResponsePanic tr f1 tr2 f3 tr3 f')
    from fire_all_kept[OF ResponsePanic(1), of None]
    have a: "own_ok None tr" "keeps_flag (last_seen None tr) f1" by auto
    from fire_all_kept[OF ResponsePanic(5), of "last_seen None tr"] a(2)
    have b: "own_ok (last_seen None tr) tr2" "keeps_flag (last_seen (last_seen None tr) tr2) f3" by auto
    from fire_all_kept[OF ResponsePanic(6), of "last_seen (last_seen None tr) tr2"] b(2)
    have c: "own_ok (last_seen (last_seen None tr) tr2) tr3" "keeps_flag (last_seen (last_seen (last_seen None tr) tr2) tr3) f'"
      by auto
    from a b c ResponsePanic(7) show ?thesis
      by (simp add: own_ok_Cons d)
  next
    case (Tunnel tr f1 tr2 f3 tr3 f4)
    from fire_all_kept[OF Tunnel(1), of None]
    have a: "own_ok None tr" "keeps_flag (last_seen None tr) f1" by auto
    from fire_all_kept[OF Tunnel(5), of "last_seen None tr"] a(2)
    have b: "own_ok (last_seen None tr) tr2" "keeps_flag (last_seen (last_seen None tr) tr2) f3" by auto
    from fire_all_kept[OF Tunnel(6), of "last_seen (last_seen None tr) tr2"] b(2)
    have c: "own_ok (last_seen (last_seen None tr) tr2) tr3" "keeps_flag (last_seen (last_seen (last_seen None tr) tr2) tr3) f4"
      by auto
    from a b c Tunnel(7) show ?thesis
      by (simp add: own_ok_Cons d)
  qed
qed

lemma ServeHTTP_own_ok: "own_ok None (fst (ServeHTTP en p cc req))"
proof (cases "hMethod req = ''CONNECT''")
  case True
  with handleConnect_own_ok[of en p cc req] show ?thesis
    by (simp add: ServeHTTP_connect)
next
  case nc: False
  show ?thesis
  proof (cases "IsAbs (hURL req) \<and> Host (hURL req) \<noteq> []")
    case False
    have "own_ok None (fst (access_all (enumerate 0 (Addons p)) req))"
      using access_unseen unseen by blast
    with nc False show ?thesis
      by (auto simp: ServeHTTP_def own_ok_Cons)
  next
    case True
    then have s: "ServeHTTP en p cc req
     = (case snd (forward_pipeline en p cc req) of
          Return f \<Rightarrow> (fst (forward_pipeline en p cc req) @ [Finish f], Returned)
        | Panicking f \<Rightarrow> (fst (forward_pipeline en p cc req) @ [Finish f, LogRecovered], Returned))"
      using nc by (intro ServeHTTP_forward) auto
    from forward_pipeline_kept[of en p cc req] show ?thesis
      unfolding s by (cases "snd (forward_pipeline en p cc req)") (simp_all add: kept_def own_ok_Cons)
  qed
qed

lemma observed_Nil [simp]: "observed [] = []"
  by (simp add: observed_def)

lemma observed_Cons:
  "observed (e # es) = (case seen e of None \<Rightarrow> [] | Some (f, f') \<Rightarrow> [f, f']) @ observed es"
  by (simp add: observed_def)

lemma sorted_push: "sorted (b # xs) \<Longrightarrow> (a \<longrightarrow> b) \<Longrightarrow> sorted (a # b # xs)"
  for a b :: bool
  by (cases a; cases b) auto

lemma seen_step:
  assumes "seen e = Some (f, f')"
      and "\<forall>h i g g'. e = Call h i g (Some g') \<longrightarrow> Stream g \<longrightarrow> Stream g'"
  shows "Stream f \<longrightarrow> Stream f'"
proof (cases e)
  case (Call h i g r)
  with assms show ?thesis by (cases r) auto
next
  case (Do c g q)
  with assms(1) show ?thesis by auto
next
  case (Finish g)
  with assms(1) show ?thesis by auto
qed (use assms(1) in simp_all)

lemma sorted_observed:
  assumes "own_ok cur tr"
      and "\<forall>h i f f'. Call h i f (Some f') \<in> set tr \<longrightarrow> Stream f \<longrightarrow> Stream f'"
  shows "sorted ((case cur of None \<Rightarrow> [] | Some g \<Rightarrow> [Stream g]) @ map Stream (observed tr))"
  using assms
proof (induction tr arbitrary: cur)
  case Nil
  show ?case by (cases cur) (simp_all only: option.case observed_Nil list.map append_Nil append_Cons sorted0 sorted1)
next
  case (Cons e es)
  have calls: "\<forall>h i f f'. Call h i f (Some f') \<in> set es \<longrightarrow> Stream f \<longrightarrow> Stream f'"
  proof (intro allI impI)
    fix h i and f f' :: flow
    assume "Call h i f (Some f') \<in> set es" and s: "Stream f"
    then have "Call h i f (Some f') \<in> set (e # es)" by simp
    with Cons.prems(2) s show "Stream f'" by blast
  qed
  have here: "\<forall>h i g g'. e = Call h i g (Some g') \<longrightarrow> Stream g \<longrightarrow> Stream g'"
  proof (intro allI impI)
    fix h i and g g' :: flow
    assume "e = Call h i g (Some g')" and s: "Stream g"
    then have "Call h i g (Some g') \<in> set (e # es)" by simp
    with Cons.prems(2) s show "Stream g'" by blast
  qed
  show ?case
  proof (cases "seen e")
    case None
    with Cons.prems(1) have "own_ok cur es"
      by (simp add: own_ok_Cons)
    from Cons.IH[OF this calls] None show ?thesis
      by (simp only: observed_Cons option.case append_Nil)
  next
    case (Some x)
    obtain f f' where x: "seen e = Some (f, f')"
      using Some by (cases x) simp
    from Cons.prems(1) x have ok: "keeps_flag cur f" "own_ok (Some f') es"
      by (simp_all add: own_ok_Cons)
    from seen_step[OF x here] have step: "Stream f \<longrightarrow> Stream f'" .
    from Cons.IH[OF ok(2) calls]
    have tl: "sorted (Stream f' # map Stream (observed es))"
      by (simp only: option.case append_Cons append_Nil)
    have o: "observed (e # es) = f # f' # observed es"
      using x by (simp add: observed_Cons)
    from sorted_push[OF tl step] have s2: "sorted (Stream f # Stream f' # map Stream (observed es))" .
    show ?thesis
    proof (cases cur)
      case None
      with s2 o show ?thesis
        by (simp only: option.case append_Nil list.map)
    next
      case (Some g)
      with ok(1) have "Stream g \<longrightarrow> Stream f" by (simp add: keeps_flag_def)
      from sorted_push[OF s2 this] Some o show ?thesis
        by (simp only: option.case append_Cons append_Nil list.map)
    qed
  qed
qed

text \<open>
  C4, as the code has it: the proxy's own code never resets \<open>f.Stream\<close>. Across every
  step of the proxy's own (from the flow one callback, send or finish leaves to the flow the
  next one sees) a flag that is true stays true; so in a run in which no callback clears the
  flag itself, the flag, once true, is true in every later observation of the flow up to
  \<open>f.finish()\<close>. A callback receives the flow and can clear the flag.
\<close>

theorem stream_flag_is_sticky:
  "(\<forall>(g, f)\<in>set (own_steps None (fst (ServeHTTP en p cc req))). Stream g \<longrightarrow> Stream f) \<and>
   ((\<forall>h i f f'. Call h i f (Some f') \<in> set (fst (ServeHTTP en p cc req))
        \<longrightarrow> Stream f \<longrightarrow> Stream f')
      \<longrightarrow> sorted (map Stream (observed (fst (ServeHTTP en p cc req)))))"
  using ServeHTTP_own_ok[of en p cc req]
    sorted_observed[of None "fst (ServeHTTP en p cc req)"]
  by (simp add: own_ok_def)

theorem stream_flag_is_sticky_witness:
  "sorted (map Stream (observed (fst (ServeHTTP (sample_env ''ok'') (sample_proxy [BaseAddon])
             sample_cc (sample_request ''POST'' ''123456''))))) \<and>
   \<not> Stream (hd (observed (fst (ServeHTTP (sample_env ''ok'') (sample_proxy [BaseAddon])
             sample_cc (sample_request ''POST'' ''123456''))))) \<and>
   Stream (last (observed (fst (ServeHTTP (sample_env ''ok'') (sample_proxy [BaseAddon])
             sample_cc (sample_request ''POST'' ''123456'')))))"
proof -
  let ?tr = "fst (ServeHTTP (sample_env ''ok'') (sample_proxy [BaseAddon])
             sample_cc (sample_request ''POST'' ''123456''))"
  have calls: "\<forall>h i f f'. Call h i f (Some f') \<in> set ?tr \<longrightarrow> Stream f \<longrightarrow> Stream f'"
    by (simp add: pipeline_defs sample_defs)
  have ends: "\<not> Stream (hd (observed ?tr))" "Stream (last (observed ?tr))"
    by (simp_all add: pipeline_defs sample_defs observed_def)
  from stream_flag_is_sticky [of "sample_env ''ok''" "sample_proxy [BaseAddon]" sample_cc
      "sample_request ''POST'' ''123456''"] calls
  have "sorted (map Stream (observed ?tr))"
    by blast
  with ends show ?thesis by blast
qed

text \<open>
  A callback is an operation of the pipeline too, and it can reset the flag. Here a request
  body of six bytes over a threshold of four sets \<open>f.Stream\<close>, the \<open>Responseheaders\<close>
  callback of the addon clears it, and from there on the flow is handled as one that does
  not stream: the response body is read into the buffer and the \<open>Response\<close> hook is
  called. The flags of the flows observed in the run, in order:
\<close>

theorem stream_flag_is_sticky_counterexample:
  "map Stream
     (observed (fst (ServeHTTP (sample_env ''ok'') (sample_proxy [buffering_addon]) sample_cc
                       (sample_request ''POST'' ''123456''))))
     = [False, False, True, True, True, True, True, False, False, False, False, False, False,
        False] \<and>
   fired HResponse (fst (ServeHTTP (sample_env ''ok'') (sample_proxy [buffering_addon]) sample_cc
                           (sample_request ''POST'' ''123456''))) = [0]"
  by (simp add: pipeline_defs sample_defs buffering_addon_def observed_def)

subsection \<open>Errors on the way to the origin\<close>

lemma forward_request_error:
  assumes "LogError s \<in> set (fst (forward_request en p h sc f b))" and "origin_side s"
  shows "\<exists>pre f'. forward_request en p h sc f b = (pre @ [LogError s, WriteHeader 502], Return f')
           \<and> (\<forall>e\<in>set pre. \<not> is_write e)"
proof (cases rule: forward_request_cases[where en=en and p=p and f=f and b=b and h=h and sc=sc])
  case (Panic tr f')
  from fire_modifiers_events[OF Panic(1)] Panic(2) assms show ?thesis
    by (auto dest: call_not_error)
next
  case (BuildError tr f' b' err)
  let ?n = "NewRequest (Method (Request f')) (URL_String en (URL (Request f'))) b'"
  from fire_modifiers_events[OF BuildError(1)] have c: "\<forall>e\<in>set tr. is_call HStreamRequestModifier e" .
  with assms BuildError(3) have s: "s = BuildRequest"
    by (auto dest: call_not_error)
  have "\<forall>e\<in>set (tr @ [?n]). \<not> is_write e"
    using c by (auto dest: call_not_write)
  with s BuildError(3) show ?thesis
    by (intro exI[of _ "tr @ [?n]"] exI[of _ f']) simp
next
  case (SendError tr f' b' q0 err)
  let ?n = "NewRequest (Method (Request f')) (URL_String en (URL (Request f'))) b'"
  let ?d = "Do (select_client h sc f') f' (add_headers en (Header (Request f')) q0)"
  from fire_modifiers_events[OF SendError(1)] have c: "\<forall>e\<in>set tr. is_call HStreamRequestModifier e" .
  with assms SendError(4) have s: "s = SendRequest"
    by (auto dest: call_not_error)
  have "\<forall>e\<in>set (tr @ [?n, InitHttpServerConn, ?d]). \<not> is_write e"
    using c by (auto dest: call_not_write)
  with s SendError(4) show ?thesis
    by (intro exI[of _ "tr @ [?n, InitHttpServerConn, ?d]"] exI[of _ f']) simp
next
  case (Sent tr f' b' q0 r)
  from fire_modifiers_events[OF Sent(1)] have c: "\<forall>e\<in>set tr. is_call HStreamRequestModifier e" .
  from handle_origin_response_phase[of en p f' r] assms(2)
  have "LogError s \<notin> set (fst (handle_origin_response en p f' r))"
    by (auto dest: late_not_error)
  with c assms Sent(4) show ?thesis
    by (auto dest: call_not_error)
qed

lemma send_reply_no_error: "LogError s \<notin> set (fst (send_reply f b))"
  using send_reply_phase[of f b] by (auto split: site.splits)

lemma read_request_body_error:
  assumes "LogError s \<in> set (fst (read_request_body en p req h sc f))" and "origin_side s"
  shows "\<exists>pre f'. read_request_body en p req h sc f
                     = (pre @ [LogError s, WriteHeader 502], Return f')
           \<and> (\<forall>e\<in>set pre. \<not> is_write e)"
proof (cases rule: read_request_body_cases[where en=en and p=p and f=f and req=req and h=h and sc=sc])
  case Streaming
  with forward_request_error[of s en p h sc f "Some (hBody req)"] assms show ?thesis by simp
next
  case (Error err)
  let ?rb = "ReaderToBuffer ReadRequestBody (hBody req) (StreamLargeBodies (Opts p))"
  from Error(3) assms have "s = ReadRequestBody" by auto
  with Error(3) show ?thesis
    by (intro exI[of _ "[?rb]"] exI[of _ f]) simp
next
  case (TooLarge r)
  let ?rb = "ReaderToBuffer ReadRequestBody (hBody req) (StreamLargeBodies (Opts p))"
  from TooLarge assms have "LogError s \<in> set (fst (forward_request en p h sc (f\<lparr>Stream := True\<rparr>) r))"
    by simp
  from forward_request_error[OF this assms(2)] obtain pre f' where
    "forward_request en p h sc (f\<lparr>Stream := True\<rparr>) r
       = (pre @ [LogError s, WriteHeader 502], Return f')" "\<forall>e\<in>set pre. \<not> is_write e"
    by blast
  with TooLarge(3) show ?thesis
    by (intro exI[of _ "?rb # LogBodyTooLarge ReadRequestBody # pre"] exI[of _ f'])
       (simp add: after_def)
next
  case (HookPanic buf r tr f')
  from fire_until_response_events[OF HookPanic(3)] HookPanic(4) assms show ?thesis
    by (auto dest: call_not_error)
next
  case (Short buf r tr f')
  from fire_until_response_events[OF Short(3)] Short(4) assms send_reply_no_error[of s f' None]
  show ?thesis by (auto dest: call_not_error)
next
  case (Buffered buf r tr f')
  let ?rb = "ReaderToBuffer ReadRequestBody (hBody req) (StreamLargeBodies (Opts p))"
  let ?b = "Some \<lparr>content = (case Body (Request f') of None \<Rightarrow> [] | Some b \<Rightarrow> b),
                    read_error = False\<rparr>"
  from fire_until_response_events[OF Buffered(3)] have c: "\<forall>e\<in>set tr. is_call HRequest e" .
  with assms Buffered(4) have "LogError s \<in> set (fst (forward_request en p h sc f' ?b))"
    by (auto dest: call_not_error)
  from forward_request_error[OF this assms(2)] obtain pre f'' where
    "forward_request en p h sc f' ?b = (pre @ [LogError s, WriteHeader 502], Return f'')"
    "\<forall>e\<in>set pre. \<not> is_write e"
    by blast
  with Buffered(4) c show ?thesis
    by (intro exI[of _ "?rb # tr @ pre"] exI[of _ f'']) (auto simp: after_def dest: call_not_write)
qed

lemma forward_pipeline_error:
  assumes "LogError s \<in> set (fst (forward_pipeline en p cc req))" and "origin_side s"
  shows "\<exists>pre f'. forward_pipeline en p cc req = (pre @ [LogError s, WriteHeader 502], Return f')
           \<and> (\<forall>e\<in>set pre. \<not> is_write e)"
proof (cases rule: forward_pipeline_cases[where en=en and p=p and cc=cc and req=req])
  case (Panic tr f')
  from fire_until_response_events[OF Panic(1)] Panic(2) assms show ?thesis
    by (auto dest: call_not_error)
next
  case (Short tr f')
  from fire_until_response_events[OF Short(1)] Short(2) assms send_reply_no_error[of s f' None]
  show ?thesis by (auto dest: call_not_error)
next
  case (Proceed tr f')
  from fire_until_response_events[OF Proceed(1)] have c: "\<forall>e\<in>set tr. is_call HRequestheaders e" .
  with assms Proceed(2)
  have "LogError s \<in> set (fst (read_request_body en p req (Host (hURL req)) (Scheme (hURL req)) f'))"
    by (auto dest: call_not_error)
  from read_request_body_error[OF this assms(2)] obtain pre f'' where
    "read_request_body en p req (Host (hURL req)) (Scheme (hURL req)) f'
       = (pre @ [LogError s, WriteHeader 502], Return f'')"
    "\<forall>e\<in>set pre. \<not> is_write e"
    by blast
  with Proceed(2) c show ?thesis
    by (intro exI[of _ "tr @ pre"] exI[of _ f'']) (auto simp: after_def dest: call_not_write)
qed

text \<open>Every call that fails has its error logged.\<close>

lemma logged_append: "logged en xs \<Longrightarrow> logged en ys \<Longrightarrow> logged en (xs @ ys)"
  by (auto simp: logged_def)

lemma logged_quiet: "\<forall>e\<in>set tr. fails en e = None \<Longrightarrow> logged en tr"
  by (simp add: logged_def)

lemma call_never_fails: "is_call h e \<Longrightarrow> fails en e = None"
  by (cases e) auto

lemma logged_calls: "\<forall>e\<in>set tr. is_call h e \<Longrightarrow> logged en tr"
  by (intro logged_quiet) (auto dest: call_never_fails)

lemma writer_never_fails: "phase e = 7 \<Longrightarrow> fails en e = None"
  by (cases e) (auto split: hook.splits site.splits)

lemma send_reply_logged: "logged en (fst (send_reply f b))"
  using send_reply_phase[of f b] by (intro logged_quiet) (auto dest: writer_never_fails)

lemma modify_and_reply_logged: "logged en (fst (modify_and_reply p f b))"
proof (cases rule: modify_and_reply_cases[where p=p and f=f and b=b])
  case (Panic tr f')
  from logged_calls[OF fire_modifiers_events[OF Panic(1)]] Panic(2) show ?thesis
    by simp
next
  case (Reply tr f' b')
  from logged_calls[OF fire_modifiers_events[OF Reply(1)]] Reply(2) show ?thesis
    by (simp add: logged_append send_reply_logged)
qed

lemma logged_Cons_quiet: "fails en e = None \<Longrightarrow> logged en tr \<Longrightarrow> logged en (e # tr)"
  by (auto simp: logged_def)

lemma read_response_body_logged: "logged en (fst (read_response_body en p f b))"
proof (cases rule: read_response_body_cases[where en=en and p=p and f=f and b=b])
  case Streaming
  then show ?thesis by (simp add: modify_and_reply_logged)
next
  case (Error err)
  then show ?thesis by (simp add: logged_def)
next
  case (TooLarge r)
  then show ?thesis
    by (auto intro!: logged_Cons_quiet modify_and_reply_logged simp: after_def)
next
  case (NilResponse buf r)
  then show ?thesis by (simp add: logged_def)
next
  case (HookPanic buf r resp tr f')
  from logged_calls[OF fire_all_events[OF HookPanic(4)]] HookPanic(2,5) show ?thesis
    by (auto intro!: logged_Cons_quiet)
next
  case (Buffered buf r resp tr f')
  from logged_calls[OF fire_all_events[OF Buffered(4)]] Buffered(2,5) show ?thesis
    by (auto intro!: logged_Cons_quiet logged_append modify_and_reply_logged simp: after_def)
qed

lemma logged_BodyClose: "logged en tr \<Longrightarrow> logged en (tr @ [BodyClose])"
  by (auto simp: logged_def)

lemma handle_origin_response_logged: "logged en (fst (handle_origin_response en p f r))"
proof (cases rule: handle_origin_response_cases[where en=en and p=p and f=f and r=r])
  case (Panic tr f')
  from logged_calls[OF fire_Responseheaders_events[OF Panic(1)]] Panic(2) show ?thesis
    by (simp add: logged_BodyClose)
next
  case (Short tr f')
  from logged_calls[OF fire_Responseheaders_events[OF Short(1)]]
  have "logged en (tr @ fst (send_reply f' None))"
    by (intro logged_append send_reply_logged)
  from logged_BodyClose[OF this] Short(2) show ?thesis by simp
next
  case (Proceed tr f')
  from logged_calls[OF fire_Responseheaders_events[OF Proceed(1)]]
  have "logged en (tr @ fst (read_response_body en p f' (oBody r)))"
    by (intro logged_append read_response_body_logged)
  from logged_BodyClose[OF this] Proceed(2) show ?thesis by simp
qed

lemma forward_request_logged: "logged en (fst (forward_request en p h sc f b))"
proof (cases rule: forward_request_cases[where en=en and p=p and f=f and b=b and h=h and sc=sc])
  case (Panic tr f')
  from logged_calls[OF fire_modifiers_events[OF Panic(1)]] Panic(2) show ?thesis
    by simp
next
  case (BuildError tr f' b' err)
  have "logged en [NewRequest (Method (Request f')) (URL_String en (URL (Request f'))) b',
                  LogError BuildRequest, WriteHeader 502]"
    using BuildError(2) by (simp add: logged_def)
  from logged_append[OF logged_calls[OF fire_modifiers_events[OF BuildError(1)]] this]
    BuildError(3) show ?thesis by simp
next
  case (SendError tr f' b' q0 err)
  have "logged en [NewRequest (Method (Request f')) (URL_String en (URL (Request f'))) b',
                  InitHttpServerConn,
                  Do (select_client h sc f') f' (add_headers en (Header (Request f')) q0),
                  LogError SendRequest, WriteHeader 502]"
    using SendError(2,3) by (simp add: logged_def)
  from logged_append[OF logged_calls[OF fire_modifiers_events[OF SendError(1)]] this]
    SendError(4) show ?thesis by simp
next
  case (Sent tr f' b' q0 r)
  have "logged en [NewRequest (Method (Request f')) (URL_String en (URL (Request f'))) b',
                  InitHttpServerConn,
                  Do (select_client h sc f') f' (add_headers en (Header (Request f')) q0)]"
    using Sent(2,3) by (simp add: logged_def)
  from logged_append[OF logged_append[OF logged_calls[OF fire_modifiers_events[OF Sent(1)]] this]
      handle_origin_response_logged[of en p f' r]]
    Sent(4) show ?thesis by simp
qed

lemma read_request_body_logged: "logged en (fst (read_request_body en p req h sc f))"
proof (cases rule: read_request_body_cases[where en=en and p=p and f=f and req=req and h=h and sc=sc])
  case Streaming
  then show ?thesis by (simp add: forward_request_logged)
next
  case (Error err)
  then show ?thesis by (simp add: logged_def)
next
  case (TooLarge r)
  then show ?thesis
    by (auto intro!: logged_Cons_quiet forward_request_logged simp: after_def)
next
  case (HookPanic buf r tr f')
  from logged_calls[OF fire_until_response_events[OF HookPanic(3)]] HookPanic(2,4) show ?thesis
    by (auto intro!: logged_Cons_quiet)
next
  case (Short buf r tr f')
  from logged_calls[OF fire_until_response_events[OF Short(3)]] Short(2,4) show ?thesis
    by (auto intro!: logged_Cons_quiet logged_append send_reply_logged simp: after_def)
next
  case (Buffered buf r tr f')
  from logged_calls[OF fire_until_response_events[OF Buffered(3)]] Buffered(2,4) show ?thesis
    by (auto intro!: logged_Cons_quiet logged_append forward_request_logged simp: after_def)
qed

lemma forward_pipeline_logged: "logged en (fst (forward_pipeline en p cc req))"
proof (cases rule: forward_pipeline_cases[where en=en and p=p and cc=cc and req=req])
  case (Panic tr f')
  from logged_calls[OF fire_until_response_events[OF Panic(1)]] Panic(2) show ?thesis
    by simp
next
  case (Short tr f')
  from logged_calls[OF fire_until_response_events[OF Short(1)]] Short(2) show ?thesis
    by (simp add: logged_append send_reply_logged)
next
  case (Proceed tr f')
  from logged_calls[OF fire_until_response_events[OF Proceed(1)]] Proceed(2) show ?thesis
    by (simp add: logged_append read_request_body_logged)
qed

lemma forward_failure_logged:
  assumes "hMethod req \<noteq> ''CONNECT''" and "IsAbs (hURL req)" and "Host (hURL req) \<noteq> []"
      and "e \<in> set (fst (ServeHTTP en p cc req))" and "fails en e = Some s"
  shows "LogError s \<in> set (fst (ServeHTTP en p cc req))"
proof -
  from assms(4,5) have "e \<in> set (fst (forward_pipeline en p cc req))"
    unfolding ServeHTTP_forward[OF assms(1-3)]
    by (cases "snd (forward_pipeline en p cc req)") auto
  with forward_pipeline_logged[of en p cc req] assms(5)
  have "LogError s \<in> set (fst (forward_pipeline en p cc req))"
    by (auto simp: logged_def)
  then show ?thesis
    unfolding ServeHTTP_forward[OF assms(1-3)]
    by (cases "snd (forward_pipeline en p cc req)") auto
qed

lemma read_failure_run:
  assumes "hMethod req \<noteq> ''CONNECT''" and "IsAbs (hURL req)" and "Host (hURL req) \<noteq> []"
      and "fire_until_response HRequestheaders Requestheaders (enumerate 0 (Addons p))
             (first_flow cc req) = (tr0, Proceed f1)"
      and "\<not> Stream f1"
      and "readerToBuffer en (hBody req) (StreamLargeBodies (Opts p)) = Inl err"
  shows "ServeHTTP en p cc req
           = (tr0 @ [ReaderToBuffer ReadRequestBody (hBody req) (StreamLargeBodies (Opts p)),
                     LogError ReadRequestBody, WriteHeader 502, Finish f1], Returned)"
proof -
  from assms(5,6)
  have "read_request_body en p req (Host (hURL req)) (Scheme (hURL req)) f1
          = ([ReaderToBuffer ReadRequestBody (hBody req) (StreamLargeBodies (Opts p)),
              LogError ReadRequestBody, WriteHeader 502], Return f1)"
    by (simp add: read_request_body_def after_def)
  moreover from assms(4)
  have "forward_pipeline en p cc req
          = after tr0 (read_request_body en p req (Host (hURL req)) (Scheme (hURL req)) f1)"
    by (cases rule: forward_pipeline_cases[where en=en and p=p and cc=cc and req=req]) simp_all
  ultimately show ?thesis
    unfolding ServeHTTP_forward[OF assms(1-3)] by (simp add: after_def)
qed

text \<open>
  C5: in the forward pipeline, whenever the request body is read and \<open>readerToBuffer\<close>
  returns an error, whenever the outbound request is built and
  \<open>http.NewRequestWithContext\<close> returns an error, and whenever the request is sent and
  \<open>client.Do\<close> returns an error, the error is logged; and a run in which one of these
  three errors is logged ends with that log entry, \<open>res.WriteHeader(502)\<close> and
  \<open>f.finish()\<close>, nothing having been written to the client before. The request body is
  read, and its failure met, as soon as the \<open>Requestheaders\<close> hooks have run without
  setting a response or the stream flag.
\<close>

theorem origin_error_gives_502:
  assumes "hMethod req \<noteq> ''CONNECT''" and "IsAbs (hURL req)" and "Host (hURL req) \<noteq> []"
  shows "(\<forall>s. s = ReadRequestBody \<or> s = BuildRequest \<or> s = SendRequest \<longrightarrow>
            LogError s \<in> set (fst (ServeHTTP en p cc req)) \<longrightarrow>
            (\<exists>pre f. ServeHTTP en p cc req
                        = (pre @ [LogError s, WriteHeader 502, Finish f], Returned)
                      \<and> (\<forall>e\<in>set pre. \<not> is_write e))) \<and>
         (\<forall>rd n err. ReaderToBuffer ReadRequestBody rd n \<in> set (fst (ServeHTTP en p cc req)) \<longrightarrow>
            readerToBuffer en rd n = Inl err \<longrightarrow>
            LogError ReadRequestBody \<in> set (fst (ServeHTTP en p cc req))) \<and>
         (\<forall>m u b err. NewRequest m u b \<in> set (fst (ServeHTTP en p cc req)) \<longrightarrow>
            NewRequestWithContext en m u b = Inl err \<longrightarrow>
            LogError BuildRequest \<in> set (fst (ServeHTTP en p cc req))) \<and>
         (\<forall>c g q err. Do c g q \<in> set (fst (ServeHTTP en p cc req)) \<longrightarrow>
            client_Do en c q = Inl err \<longrightarrow>
            LogError SendRequest \<in> set (fst (ServeHTTP en p cc req))) \<and>
         (\<forall>tr0 f1 err.
            fire_until_response HRequestheaders Requestheaders (enumerate 0 (Addons p))
              (first_flow cc req) = (tr0, Proceed f1) \<longrightarrow>
            \<not> Stream f1 \<longrightarrow>
            readerToBuffer en (hBody req) (StreamLargeBodies (Opts p)) = Inl err \<longrightarrow>
            ServeHTTP en p cc req
              = (tr0 @ [ReaderToBuffer ReadRequestBody (hBody req) (StreamLargeBodies (Opts p)),
                        LogError ReadRequestBody, WriteHeader 502, Finish f1], Returned))"
proof (intro conjI allI impI)
  fix s
  assume s: "s = ReadRequestBody \<or> s = BuildRequest \<or> s = SendRequest"
     and l: "LogError s \<in> set (fst (ServeHTTP en p cc req))"
  from l have "LogError s \<in> set (fst (forward_pipeline en p cc req))"
    unfolding ServeHTTP_forward[OF assms] by (cases "snd (forward_pipeline en p cc req)") auto
  from forward_pipeline_error[OF this] s obtain pre f' where
    "forward_pipeline en p cc req = (pre @ [LogError s, WriteHeader 502], Return f')"
    "\<forall>e\<in>set pre. \<not> is_write e"
    by (auto simp: origin_side_def)
  then show "\<exists>pre f. ServeHTTP en p cc req
                        = (pre @ [LogError s, WriteHeader 502, Finish f], Returned)
                      \<and> (\<forall>e\<in>set pre. \<not> is_write e)"
    unfolding ServeHTTP_forward[OF assms] by auto
next
  fix rd n err
  assume "ReaderToBuffer ReadRequestBody rd n \<in> set (fst (ServeHTTP en p cc req))"
    and "readerToBuffer en rd n = Inl err"
  then show "LogError ReadRequestBody \<in> set (fst (ServeHTTP en p cc req))"
    by (intro forward_failure_logged[OF assms]) auto
next
  fix m u b err
  assume "NewRequest m u b \<in> set (fst (ServeHTTP en p cc req))"
    and "NewRequestWithContext en m u b = Inl err"
  then show "LogError BuildRequest \<in> set (fst (ServeHTTP en p cc req))"
    by (intro forward_failure_logged[OF assms]) auto
next
  fix c g q err
  assume "Do c g q \<in> set (fst (ServeHTTP en p cc req))"
    and "client_Do en c q = Inl err"
  then show "LogError SendRequest \<in> set (fst (ServeHTTP en p cc req))"
    by (intro forward_failure_logged[OF assms]) auto
next
  fix tr0 and f1 :: flow and err
  assume "fire_until_response HRequestheaders Requestheaders (enumerate 0 (Addons p))
              (first_flow cc req) = (tr0, Proceed f1)"
    and "\<not> Stream f1"
    and "readerToBuffer en (hBody req) (StreamLargeBodies (Opts p)) = Inl err"
  then show "ServeHTTP en p cc req
              = (tr0 @ [ReaderToBuffer ReadRequestBody (hBody req) (StreamLargeBodies (Opts p)),
                        LogError ReadRequestBody, WriteHeader 502, Finish f1], Returned)"
    by (rule read_failure_run[OF assms])
qed

theorem origin_error_gives_502_witness:
  "ServeHTTP (sample_env []) (sample_proxy []) sample_cc broken_request
     = ([ReaderToBuffer ReadRequestBody \<lparr>content = ''ab'', read_error = True\<rparr> 4,
         LogError ReadRequestBody, WriteHeader 502,
         Finish (first_flow sample_cc broken_request)], Returned) \<and>
   (\<exists>pre f. ServeHTTP (sample_env []) (sample_proxy [BaseAddon]) sample_cc broken_request
     = (pre @ [LogError ReadRequestBody, WriteHeader 502, Finish f], Returned)) \<and>
   (\<exists>pre f. ServeHTTP (sample_env []) (sample_proxy [garbling_addon]) sample_cc
               (sample_request ''GET'' [])
     = (pre @ [LogError BuildRequest, WriteHeader 502, Finish f], Returned)) \<and>
   (\<exists>pre f. ServeHTTP refusing_env (sample_proxy [BaseAddon]) sample_cc (sample_request ''GET'' [])
     = (pre @ [LogError SendRequest, WriteHeader 502, Finish f], Returned))"
proof -
  let ?p = "sample_proxy [BaseAddon]" and ?g = "sample_proxy [garbling_addon]"
  have fw: "hMethod broken_request \<noteq> ''CONNECT''" "IsAbs (hURL broken_request)"
    "Host (hURL broken_request) \<noteq> []"
    by (simp_all add: broken_request_def sample_request_def IsAbs_def)
  have l: "fire_until_response HRequestheaders Requestheaders
             (enumerate 0 (Addons (sample_proxy []))) (first_flow sample_cc broken_request)
             = ([], Proceed (first_flow sample_cc broken_request))"
    "\<not> Stream (first_flow sample_cc broken_request)"
    "hBody broken_request = \<lparr>content = ''ab'', read_error = True\<rparr>"
    "StreamLargeBodies (Opts (sample_proxy [])) = 4"
    by (simp_all add: sample_defs first_flow_def newFlow_def broken_request_def)
  have r: "ReaderToBuffer ReadRequestBody \<lparr>content = ''ab'', read_error = True\<rparr> 4
             \<in> set (fst (ServeHTTP (sample_env []) ?p sample_cc broken_request))"
    "readerToBuffer (sample_env []) \<lparr>content = ''ab'', read_error = True\<rparr> 4 = Inl ''read error''"
    by (simp_all add: pipeline_defs sample_defs broken_request_def)
  have b: "NewRequest ''GET /'' ''http://origin/'' (Some (bytes_reader []))
             \<in> set (fst (ServeHTTP (sample_env []) ?g sample_cc (sample_request ''GET'' [])))"
    "NewRequestWithContext (sample_env []) ''GET /'' ''http://origin/'' (Some (bytes_reader []))
       = Inl ''net/http: invalid method''"
    by (simp_all add: pipeline_defs sample_defs garbling_addon_def)
  have "\<exists>c g q. Do c g q \<in> set (fst (ServeHTTP refusing_env ?p sample_cc (sample_request ''GET'' [])))
           \<and> client_Do refusing_env c q = Inl ''connection refused''"
    by (simp add: pipeline_defs sample_defs refusing_env_def)
  then obtain c g q where
    d: "Do c g q \<in> set (fst (ServeHTTP refusing_env ?p sample_cc (sample_request ''GET'' [])))"
      "client_Do refusing_env c q = Inl ''connection refused''"
    by blast
  note t0 = origin_error_gives_502 [OF fw, where en="sample_env []" and p="sample_proxy []"
      and cc=sample_cc]
  note t1 = origin_error_gives_502 [OF fw, where en="sample_env []" and p="?p" and cc=sample_cc]
  note t2 = origin_error_gives_502 [OF sample_forward, where en="sample_env []" and p="?g"
      and cc=sample_cc]
  note t3 = origin_error_gives_502 [OF sample_forward, where en=refusing_env and p="?p"
      and cc=sample_cc]
  from t0[THEN conjunct2, THEN conjunct2, THEN conjunct2, THEN conjunct2] l r(2)
  have "ServeHTTP (sample_env []) (sample_proxy []) sample_cc broken_request
     = ([ReaderToBuffer ReadRequestBody \<lparr>content = ''ab'', read_error = True\<rparr> 4,
         LogError ReadRequestBody, WriteHeader 502,
         Finish (first_flow sample_cc broken_request)], Returned)"
    by simp
  moreover from t1 r have "\<exists>pre f. ServeHTTP (sample_env []) ?p sample_cc broken_request
     = (pre @ [LogError ReadRequestBody, WriteHeader 502, Finish f], Returned)"
    by blast
  moreover from t2 b have "\<exists>pre f. ServeHTTP (sample_env []) ?g sample_cc (sample_request ''GET'' [])
     = (pre @ [LogError BuildRequest, WriteHeader 502, Finish f], Returned)"
    by blast
  moreover from t3 d have "\<exists>pre f. ServeHTTP refusing_env ?p sample_cc (sample_request ''GET'' [])
     = (pre @ [LogError SendRequest, WriteHeader 502, Finish f], Returned)"
    by blast
  ultimately show ?thesis by blast
qed

subsection \<open>Requests addressed to the proxy itself\<close>





subsection \<open>Upstream resolution\<close>

text \<open>
  C7: \<open>getUpstreamProxyUrl\<close> is the first-match-wins precedence of the specification:
  callback if set, else static upstream if non-empty, else the environment for the
  request's host over https; when no URL results, \<open>getUpstreamConn\<close> dials the host directly.
\<close>

theorem upstream_precedence:
  "getUpstreamProxyUrl e p req = first_match (upstream_candidates e p req) \<and>
   (getUpstreamProxyUrl e p req = Inr None \<longrightarrow>
      getUpstreamConn e p req = ([DialDirect (hHost req)], net_Dial e (hHost req)))"
  by (auto simp: getUpstreamProxyUrl_def first_match_def upstream_candidates_def
        getUpstreamConn_def split: option.splits sum.splits)

theorem upstream_precedence_witness:
  "getUpstreamProxyUrl (sample_env []) (sample_proxy []) (sample_request ''CONNECT'' []) = Inr None \<and>
   getUpstreamConn (sample_env []) (sample_proxy []) (sample_request ''CONNECT'' [])
     = ([DialDirect ''origin''], None)"
  using upstream_precedence [of "sample_env []" "sample_proxy []" "sample_request ''CONNECT'' []"]
  by (simp add: first_match_def upstream_candidates_def sample_env_def sample_proxy_def
        sample_request_def)

subsection \<open>Choice of the client\<close>

lemma chosen_simps [simp]:
  "chosen h sc (Do c f q) = (c = select_client h sc f)"
  "chosen h sc InitHttpServerConn" "chosen h sc (LogError s)" "chosen h sc (WriteHeader n)"
  "chosen h sc (LogBodyTooLarge s)" "chosen h sc (ReaderToBuffer s r n)"
  "chosen h sc (NewRequest m u b)"
  by (simp_all add: chosen_def)










subsection \<open>Panics of callbacks\<close>

text \<open>
  C9: the recovery of line 222 is registered after the CONNECT branch has returned, so a
  callback that panics while a CONNECT request is handled is not recovered by the proxy: the
  panic leaves \<open>ServeHTTP\<close> and no warning is logged, whereas the same addon on a
  request of the forward pipeline is recovered with the warning.
\<close>

theorem connect_panic_not_recovered:
  "ServeHTTP (sample_env []) (sample_proxy [panicking_addon]) sample_cc
      (sample_request ''CONNECT'' [])
     = ([Call HRequestheaders 0
           (connect_flow (sample_proxy [panicking_addon]) sample_cc
              (sample_request ''CONNECT'' [])) None,
         Finish (connect_flow (sample_proxy [panicking_addon]) sample_cc
                   (sample_request ''CONNECT'' []))],
        Panicked) \<and>
   ServeHTTP (sample_env []) (sample_proxy [panicking_addon]) sample_cc
      (sample_request ''GET'' [])
     = ([Call HRequestheaders 0 (first_flow sample_cc (sample_request ''GET'' [])) None,
         Finish (first_flow sample_cc (sample_request ''GET'' [])),
         LogRecovered],
        Returned)"
  by (simp add: pipeline_defs connect_defs sample_defs panicking_addon_def connect_flow_def
        first_flow_def)

theorem connect_panic_not_recovered_witness:
  "snd (ServeHTTP (sample_env []) (sample_proxy [panicking_addon]) sample_cc
          (sample_request ''CONNECT'' [])) = Panicked \<and>
   LogRecovered \<notin> set (fst (ServeHTTP (sample_env []) (sample_proxy [panicking_addon]) sample_cc
          (sample_request ''CONNECT'' [])))"
  using connect_panic_not_recovered by simp

subsection \<open>The CONNECT handler does not short-circuit\<close>




end
